(* ===== verification/Prelude.thy ===== *)
theory Prelude
  imports Main "HOL-Library.Word" "HOL-Library.Monad_Syntax"
begin

text \<open>
  What every theory of the development shares: the machine integers of the Rust code, the
  development's fact collections, the little-endian byte encodings of words
  (\<open>to_le_bytes\<close> and \<open>from_le_bytes\<close> of the standard library), decimal printing and
  the error-or-value type of fallible code.

  A Rust string, path or byte vector is a \<^typ>\<open>string\<close>, one character for each byte; the
  wire format of the fork server is a list of 8-bit words.
\<close>

unbundle bit_operations_syntax

type_synonym u8 = "8 word"
type_synonym u16 = "16 word"
type_synonym u32 = "32 word"
type_synonym u64 = "64 word"
type_synonym i32 = "32 word"
type_synonym errno = i32

named_theorems le_simps \<open>facts on the little-endian encodings\<close>
named_theorems text_simps \<open>facts on decimal numerals and text scanning\<close>

section \<open>Little-endian encodings\<close>

definition le_bytes :: "nat \<Rightarrow> 'a::len word \<Rightarrow> u8 list" where
  "le_bytes n w = map (\<lambda>i. ucast (drop_bit (8 * i) w)) [0..<n]"

primrec from_le :: "u8 list \<Rightarrow> 'a::len word" where
  "from_le [] = 0"
| "from_le (b # bs) = ucast b OR push_bit 8 (from_le bs)"

lemma length_le_bytes [simp, le_simps]: "length (le_bytes n w) = n"
  by (simp add: le_bytes_def)

lemma bit_from_le:
  "bit (from_le bs :: 'a::len word) n \<longleftrightarrow>
     n < LENGTH('a) \<and> n div 8 < length bs \<and> bit (bs ! (n div 8)) (n mod 8)"
proof (induction bs arbitrary: n)
  case Nil
  then show ?case by simp
next
  case (Cons b bs)
  show ?case
  proof (cases "n < 8")
    case True
    then show ?thesis
      by (auto simp: bit_or_iff bit_push_bit_iff bit_ucast_iff dest: bit_imp_le_length)
  next
    case False
    then obtain m where m: "n = 8 + m" by (metis le_add_diff_inverse not_less)
    have "\<not> bit b n" using False by (auto dest: bit_imp_le_length)
    moreover have "(8 + m) div 8 = Suc (m div 8)" and "(8 + m) mod 8 = m mod 8" by simp_all
    ultimately show ?thesis
      by (auto simp: bit_or_iff bit_push_bit_iff bit_ucast_iff Cons.IH m)
  qed
qed

lemma from_le_le_bytes [simp, le_simps]:
  assumes "LENGTH('a) \<le> 8 * n"
  shows "from_le (le_bytes n w) = (w :: 'a::len word)"
proof (rule bit_word_eqI)
  fix k assume k: "k < LENGTH('a)"
  then have "k div 8 < n" using assms by (simp add: less_mult_imp_div_less mult.commute)
  then show "bit (from_le (le_bytes n w) :: 'a word) k \<longleftrightarrow> bit w k"
    using k by (simp add: bit_from_le le_bytes_def bit_ucast_iff bit_drop_bit_eq)
qed

lemma le_bytes_from_le [simp, le_simps]:
  assumes "length bs = n" and "8 * n \<le> LENGTH('a)"
  shows "le_bytes n (from_le bs :: 'a::len word) = bs"
proof (rule nth_equalityI)
  show "length (le_bytes n (from_le bs :: 'a word)) = length bs" using assms by simp
next
  fix i assume "i < length (le_bytes n (from_le bs :: 'a word))"
  then have i: "i < n" by simp
  show "le_bytes n (from_le bs :: 'a word) ! i = bs ! i"
  proof (rule bit_word_eqI)
    fix k assume "k < LENGTH(8)"
    then show "bit (le_bytes n (from_le bs :: 'a word) ! i) k \<longleftrightarrow> bit (bs ! i) k"
      using i assms
      by (simp add: le_bytes_def bit_ucast_iff bit_drop_bit_eq bit_from_le)
  qed
qed

section \<open>Characters as bytes\<close>

definition byte_of :: "char \<Rightarrow> u8" where
  "byte_of c = word_of_nat (of_char c)"

definition char_at :: "u8 \<Rightarrow> char" where
  "char_at b = char_of (unat b)"

lemma char_at_byte_of [simp]: "char_at (byte_of c) = c"
  by (simp add: char_at_def byte_of_def unat_of_nat)

lemma byte_of_char_at [simp]: "byte_of (char_at b) = b"
proof -
  have "unat b < 256" using unsigned_less [of b] by simp
  then show ?thesis by (simp add: char_at_def byte_of_def of_char_mod_256)
qed

abbreviation bytes_of :: "string \<Rightarrow> u8 list" where
  "bytes_of \<equiv> map byte_of"

abbreviation string_at :: "u8 list \<Rightarrow> string" where
  "string_at \<equiv> map char_at"

lemma char_at_comp_byte_of [simp]: "char_at \<circ> byte_of = id"
  by (simp add: fun_eq_iff)

lemma byte_of_comp_char_at [simp]: "byte_of \<circ> char_at = id"
  by (simp add: fun_eq_iff)

lemma string_at_bytes_of [simp]: "string_at (bytes_of s) = s"
  by simp

lemma bytes_of_string_at [simp]: "bytes_of (string_at bs) = bs"
  by simp

lemma char_at_image_byte_of [simp]: "char_at ` byte_of ` A = A"
  by (simp add: image_image)

definition NUL :: char where "NUL = CHR 0x00"

lemma bind_pairE:
  assumes "Option.bind m (\<lambda>(x, p). f x p) = Some r"
  obtains x p where "m = Some (x, p)" and "f x p = Some r"
  using assms by (auto simp: bind_eq_Some_conv)

section \<open>Fallible code\<close>

text \<open>
  A Rust \<open>Result\<close> is a sum, with the error on the left. The collecting map of
  \<open>iter().map(f).collect::<Result<Vec<_>,_>>()\<close> stops at the first error.
\<close>

definition map_err :: "('e \<Rightarrow> 'f) \<Rightarrow> 'e + 'a \<Rightarrow> 'f + 'a" where
  "map_err f r = (case r of Inl e \<Rightarrow> Inl (f e) | Inr x \<Rightarrow> Inr x)"

lemma map_err_simps [simp]:
  "map_err f (Inl e) = Inl (f e)"
  "map_err f (Inr x) = Inr x"
  by (simp_all add: map_err_def)

fun collect_results :: "('a \<Rightarrow> 'e + 'b) \<Rightarrow> 'a list \<Rightarrow> 'e + 'b list" where
  "collect_results f [] = Inr []"
| "collect_results f (x # xs) =
     (case f x of
        Inl e \<Rightarrow> Inl e
      | Inr y \<Rightarrow> (case collect_results f xs of Inl e \<Rightarrow> Inl e | Inr ys \<Rightarrow> Inr (y # ys)))"

lemma collect_results_Inr_iff:
  "collect_results f xs = Inr ys \<longleftrightarrow> list_all2 (\<lambda>x y. f x = Inr y) xs ys"
proof (induction xs arbitrary: ys)
  case Nil
  then show ?case by auto
next
  case (Cons x xs)
  then show ?case
    by (cases ys; cases "f x"; cases "collect_results f xs") auto
qed

lemma collect_results_Inl:
  "collect_results f xs = Inl e \<Longrightarrow>
     \<exists>as x bs. xs = as @ x # bs \<and> f x = Inl e \<and> (\<forall>a \<in> set as. \<exists>y. f a = Inr y)"
proof (induction xs)
  case Nil
  then show ?case by simp
next
  case (Cons x xs)
  show ?case
  proof (cases "f x")
    case (Inl e')
    with Cons.prems show ?thesis by (intro exI [of _ "[]"]) auto
  next
    case (Inr y)
    with Cons.prems have "collect_results f xs = Inl e" by (auto split: sum.splits)
    with Cons.IH obtain as z bs where
      "xs = as @ z # bs" "f z = Inl e" "\<forall>a \<in> set as. \<exists>y. f a = Inr y" by blast
    with Inr show ?thesis by (intro exI [of _ "x # as"]) auto
  qed
qed

end
