(* ===== verification/Bpf.thy ===== *)
theory Bpf
  imports Prelude
begin

text \<open>
  Classic BPF as \<^verbatim>\<open>src/seccomp.rs\<close> uses it: the instruction format and its builders
  \<open>stmt\<close> and \<open>jump\<close>, the opcode and action constants, and the interface to the machine that
  runs a filter. The machine is the kernel's, so what the filter's theorems rely on is the locale
  \<open>bpf_kernel\<close>: the documented effect of the four instruction kinds brink emits. Jumps of
  classic BPF go forward only, so a machine state is the rest of the program, the accumulator and
  the \<open>seccomp_data\<close> of the system call. \<open>bpf_exec\<close> is a reference machine that
  meets the interface, and \<open>bpf_valid\<close> is the check the kernel makes before it accepts a program.
\<close>

section \<open>Definitions\<close>

definition BPF_LD :: u16 where "BPF_LD = 0x00"
definition BPF_W :: u16 where "BPF_W = 0x00"
definition BPF_ABS :: u16 where "BPF_ABS = 0x20"
definition BPF_JMP :: u16 where "BPF_JMP = 0x05"
definition BPF_JEQ :: u16 where "BPF_JEQ = 0x10"
definition BPF_JSET :: u16 where "BPF_JSET = 0x40"
definition BPF_K :: u16 where "BPF_K = 0x00"
definition BPF_RET :: u16 where "BPF_RET = 0x06"

definition SECCOMP_RET_KILL_PROCESS :: u32 where "SECCOMP_RET_KILL_PROCESS = 0x80000000"
definition SECCOMP_RET_ERRNO :: u32 where "SECCOMP_RET_ERRNO = 0x00050000"
definition SECCOMP_RET_ALLOW :: u32 where "SECCOMP_RET_ALLOW = 0x7fff0000"

definition OFF_NR :: u32 where "OFF_NR = 0"
definition OFF_ARCH :: u32 where "OFF_ARCH = 4"
definition OFF_ARG0 :: u32 where "OFF_ARG0 = 16"

definition AUDIT_ARCH_X86_64 :: u32 where "AUDIT_ARCH_X86_64 = 0xC000003E"

record sock_filter =
  sf_code :: u16
  sf_jt :: u8
  sf_jf :: u8
  sf_k :: u32

record sock_fprog =
  fp_len :: u16
  fp_filter :: "sock_filter list"

definition stmt :: "u16 \<Rightarrow> u32 \<Rightarrow> sock_filter" where
  "stmt c k = \<lparr>sf_code = c, sf_jt = 0, sf_jf = 0, sf_k = k\<rparr>"

definition jump :: "u16 \<Rightarrow> u32 \<Rightarrow> u8 \<Rightarrow> u8 \<Rightarrow> sock_filter" where
  "jump c k t f = \<lparr>sf_code = c, sf_jt = t, sf_jf = f, sf_k = k\<rparr>"

text \<open>The data of a system call: number, architecture, instruction pointer, six arguments.\<close>

record seccomp_data =
  sd_nr :: u32
  sd_arch :: u32
  sd_ip :: u64
  sd_args :: "u64 list"

text \<open>The 32-bit word at an offset of \<open>struct seccomp_data\<close> on a little-endian machine.\<close>

definition sd_word :: "seccomp_data \<Rightarrow> u32 \<Rightarrow> u32 option" where
  "sd_word d off =
     (let n = unat off; w = (\<lambda>x :: u64. if n mod 8 = 0 then ucast x else ucast (drop_bit 32 x)) in
      if n mod 4 \<noteq> 0 \<or> 64 \<le> n then None
      else if n = 0 then Some (sd_nr d)
      else if n = 4 then Some (sd_arch d)
      else if n < 16 then Some (w (sd_ip d))
      else if (n - 16) div 8 < length (sd_args d) then Some (w (sd_args d ! ((n - 16) div 8)))
      else None)"

definition arg0_low :: "seccomp_data \<Rightarrow> u32" where
  "arg0_low d = ucast (sd_args d ! 0)"

definition wf_data :: "seccomp_data \<Rightarrow> bool" where
  "wf_data d \<longleftrightarrow> length (sd_args d) = 6"

definition op_ld :: u16 where "op_ld = BPF_LD OR BPF_W OR BPF_ABS"
definition op_jeq :: u16 where "op_jeq = BPF_JMP OR BPF_JEQ OR BPF_K"
definition op_jset :: u16 where "op_jset = BPF_JMP OR BPF_JSET OR BPF_K"
definition op_ret :: u16 where "op_ret = BPF_RET OR BPF_K"

lemmas op_defs = op_ld_def op_jeq_def op_jset_def op_ret_def BPF_LD_def BPF_W_def BPF_ABS_def
  BPF_JMP_def BPF_JEQ_def BPF_JSET_def BPF_K_def BPF_RET_def

function bpf_exec :: "sock_filter list \<Rightarrow> u32 \<Rightarrow> seccomp_data \<Rightarrow> u32 option" where
  "bpf_exec [] a d = None"
| "bpf_exec (i # is) a d =
     (if sf_code i = op_ld then
        (case sd_word d (sf_k i) of None \<Rightarrow> None | Some w \<Rightarrow> bpf_exec is w d)
      else if sf_code i = op_jeq then
        bpf_exec (drop (unat (if a = sf_k i then sf_jt i else sf_jf i)) is) a d
      else if sf_code i = op_jset then
        bpf_exec (drop (unat (if a AND sf_k i \<noteq> 0 then sf_jt i else sf_jf i)) is) a d
      else if sf_code i = op_ret then Some (sf_k i)
      else None)"
  by pat_completeness auto
termination by (relation "measure (\<lambda>(p, _, _). length p)") auto

text \<open>
  The kernel accepts a filter of 1 to 4096 known instructions whose loads are aligned words of
  \<open>seccomp_data\<close>, whose jumps stay inside the program, and whose last instruction returns.
\<close>

fun bpf_insns_ok :: "sock_filter list \<Rightarrow> bool" where
  "bpf_insns_ok [] \<longleftrightarrow> False"
| "bpf_insns_ok (i # is) \<longleftrightarrow>
     (if sf_code i = op_ret then is = [] \<or> bpf_insns_ok is
      else bpf_insns_ok is \<and>
        (if sf_code i = op_ld then unat (sf_k i) mod 4 = 0 \<and> unat (sf_k i) < 64
         else (sf_code i = op_jeq \<or> sf_code i = op_jset) \<and>
           unat (sf_jt i) < length is \<and> unat (sf_jf i) < length is))"

definition bpf_valid :: "sock_filter list \<Rightarrow> bool" where
  "bpf_valid p \<longleftrightarrow> length p \<le> 4096 \<and> bpf_insns_ok p"

text \<open>A fragment whose jumps do not pass the instruction behind its end.\<close>

fun frag_ok :: "sock_filter list \<Rightarrow> bool" where
  "frag_ok [] \<longleftrightarrow> True"
| "frag_ok (i # is) \<longleftrightarrow>
     frag_ok is \<and>
     (if sf_code i = op_ret then True
      else if sf_code i = op_ld then unat (sf_k i) mod 4 = 0 \<and> unat (sf_k i) < 64
      else (sf_code i = op_jeq \<or> sf_code i = op_jset) \<and>
        unat (sf_jt i) \<le> length is \<and> unat (sf_jf i) \<le> length is)"

section \<open>The machine's interface\<close>

locale bpf_kernel =
  fixes run :: "sock_filter list \<Rightarrow> u32 \<Rightarrow> seccomp_data \<Rightarrow> u32 option"
  assumes run_ld: "sd_word d k = Some w \<Longrightarrow> run (stmt op_ld k # is) a d = run is w d"
  and run_jeq: "run (jump op_jeq k t f # is) a d = run (drop (unat (if a = k then t else f)) is) a d"
  and run_jset:
    "run (jump op_jset k t f # is) a d = run (drop (unat (if a AND k \<noteq> 0 then t else f)) is) a d"
  and run_ret: "run (stmt op_ret k # is) a d = Some k"
begin

lemma run_guard_ret:
  "run (jump op_jeq k 0 1 # stmt op_ret v # is) a d = (if a = k then Some v else run is a d)"
  by (simp add: run_jeq run_ret)

lemma run_guard_ret_list:
  "run (concat (map (\<lambda>k. [jump op_jeq k 0 1, stmt op_ret v]) ks) @ is) a d =
     (if a \<in> set ks then Some v else run is a d)"
  by (induction ks) (simp_all add: run_guard_ret)

end

interpretation machine: bpf_kernel bpf_exec
  by unfold_locales (simp_all add: stmt_def jump_def op_defs)

section \<open>Words of the data, fragments of a program\<close>

lemma sd_word_nr [simp]: "sd_word d OFF_NR = Some (sd_nr d)"
  by (simp add: sd_word_def OFF_NR_def)

lemma sd_word_arch [simp]: "sd_word d OFF_ARCH = Some (sd_arch d)"
  by (simp add: sd_word_def OFF_ARCH_def)

lemma sd_word_arg0 [simp]: "wf_data d \<Longrightarrow> sd_word d OFF_ARG0 = Some (arg0_low d)"
  by (simp add: sd_word_def OFF_ARG0_def wf_data_def arg0_low_def)

lemma frag_ok_append [simp]: "frag_ok p \<Longrightarrow> frag_ok q \<Longrightarrow> frag_ok (p @ q)"
  by (induction p) (auto split: if_splits)

lemma frag_ok_insns:
  "frag_ok p \<Longrightarrow> bpf_insns_ok q \<Longrightarrow> bpf_insns_ok (p @ q)"
  by (induction p) (cases q; auto split: if_splits)+

lemma frag_ok_guards:
  "frag_ok (concat (map (\<lambda>k. [jump op_jeq k 0 1, stmt op_ret v]) ks))"
  by (induction ks) (simp_all add: stmt_def jump_def op_defs)

end
