(* ===== verification/Abi.thy ===== *)
theory Abi
  imports Prelude
begin

text \<open>
  The constants of the Linux x86-64 ABI that the code names through the \<open>libc\<close> crate: error
  numbers, signals, the socket domain and the namespace flags of \<open>clone3\<close>, with their documented
  values. The system call numbers \<open>libc::SYS_*\<close> stay a parameter of the seccomp model.
\<close>

definition EPERM :: errno where "EPERM = 1"
definition EINTR :: errno where "EINTR = 4"
definition EIO :: errno where "EIO = 5"
definition EAGAIN :: errno where "EAGAIN = 11"
definition EACCES :: errno where "EACCES = 13"
definition EINVAL :: errno where "EINVAL = 22"
definition ENOSYS :: errno where "ENOSYS = 38"

lemmas errno_defs = EPERM_def EINTR_def EIO_def EAGAIN_def EACCES_def EINVAL_def ENOSYS_def

definition AF_UNIX :: u32 where "AF_UNIX = 1"

definition SIGKILL :: int where "SIGKILL = 9"
definition SIGCHLD :: int where "SIGCHLD = 17"
definition SIGSYS :: int where "SIGSYS = 31"

definition CLONE_NEWUSER :: u64 where "CLONE_NEWUSER = 0x10000000"
definition CLONE_NEWPID :: u64 where "CLONE_NEWPID = 0x20000000"
definition CLONE_NEWNS :: u64 where "CLONE_NEWNS = 0x00020000"
definition CLONE_NEWNET :: u64 where "CLONE_NEWNET = 0x40000000"
definition CLONE_NEWUTS :: u64 where "CLONE_NEWUTS = 0x04000000"
definition CLONE_NEWIPC :: u64 where "CLONE_NEWIPC = 0x08000000"
definition CLONE_NEWCGROUP :: u64 where "CLONE_NEWCGROUP = 0x02000000"
definition CLONE_PIDFD :: u64 where "CLONE_PIDFD = 0x00001000"

lemmas clone_defs = CLONE_NEWUSER_def CLONE_NEWPID_def CLONE_NEWNS_def CLONE_NEWNET_def
  CLONE_NEWUTS_def CLONE_NEWIPC_def CLONE_NEWCGROUP_def CLONE_PIDFD_def

end
