(* ===== verification/RustStd.thy ===== *)
theory RustStd
  imports Prelude
begin

text \<open>
  The parts of Rust's standard library that brink computes with: integer printing and parsing
  (\<open>to_string\<close>, \<open>str::parse\<close>), text scanning (\<open>trim\<close>, \<open>lines\<close>,
  \<open>split_ascii_whitespace\<close>), paths (\<open>is_absolute\<close>, \<open>join\<close>, \<open>strip_prefix\<close>, \<open>to_string_lossy\<close>),
  \<open>usize::checked_add\<close> on a 64-bit target and \<open>CString::new\<close>. The code scans only text the
  kernel or brink itself writes, which is ASCII, so \<open>trim\<close> tests the ASCII white space only.
\<close>

section \<open>Definitions\<close>

subsection \<open>Integers\<close>

definition digit_char :: "nat \<Rightarrow> char" where
  "digit_char d = char_of (48 + d)"

fun dec :: "nat \<Rightarrow> string" where
  "dec n = (if n < 10 then [digit_char n] else dec (n div 10) @ [digit_char (n mod 10)])"

declare dec.simps [simp del]

definition dec_int :: "int \<Rightarrow> string" where
  "dec_int i = (if i < 0 then CHR ''-'' # dec (nat (- i)) else dec (nat i))"

definition is_digit :: "char \<Rightarrow> bool" where
  "is_digit c \<longleftrightarrow> 48 \<le> (of_char c :: nat) \<and> (of_char c :: nat) \<le> 57"

definition digits_val :: "string \<Rightarrow> nat" where
  "digits_val s = foldl (\<lambda>a c. 10 * a + (of_char c - 48)) 0 s"

definition parse_nat :: "string \<Rightarrow> nat option" where
  "parse_nat s = (if s \<noteq> [] \<and> list_all is_digit s then Some (digits_val s) else None)"

definition strip_plus :: "string \<Rightarrow> string" where
  "strip_plus s = (case s of c # cs \<Rightarrow> if c = CHR ''+'' then cs else s | [] \<Rightarrow> [])"

definition parse_u64 :: "string \<Rightarrow> u64 option" where
  "parse_u64 s =
     (case parse_nat (strip_plus s) of
        None \<Rightarrow> None
      | Some n \<Rightarrow> if n < 2 ^ 64 then Some (word_of_nat n) else None)"

definition parse_i32 :: "string \<Rightarrow> int option" where
  "parse_i32 s =
     (case s of
        c # cs \<Rightarrow>
          if c = CHR ''-'' then
            (case parse_nat cs of
               None \<Rightarrow> None
             | Some n \<Rightarrow> if n \<le> 2 ^ 31 then Some (- int n) else None)
          else
            (case parse_nat (strip_plus s) of
               None \<Rightarrow> None
             | Some n \<Rightarrow> if n < 2 ^ 31 then Some (int n) else None)
      | [] \<Rightarrow> None)"

definition checked_add :: "nat \<Rightarrow> nat \<Rightarrow> nat option" where
  "checked_add a b = (if a + b < 2 ^ 64 then Some (a + b) else None)"

subsection \<open>Text\<close>

definition newline :: char where "newline = char_of (10 :: nat)"

definition is_space :: "char \<Rightarrow> bool" where
  "is_space c \<longleftrightarrow> (of_char c :: nat) \<in> {9, 10, 11, 12, 13, 32}"

definition is_ascii_whitespace :: "char \<Rightarrow> bool" where
  "is_ascii_whitespace c \<longleftrightarrow> (of_char c :: nat) \<in> {9, 10, 12, 13, 32}"

definition trim :: "string \<Rightarrow> string" where
  "trim s = rev (dropWhile is_space (rev (dropWhile is_space s)))"

definition strip_cr :: "string \<Rightarrow> string" where
  "strip_cr l = (if l \<noteq> [] \<and> last l = char_of (13 :: nat) then butlast l else l)"

function str_lines :: "string \<Rightarrow> string list" where
  "str_lines s =
     (if s = [] then []
      else let l = takeWhile (\<lambda>c. c \<noteq> newline) s; r = dropWhile (\<lambda>c. c \<noteq> newline) s
           in if r = [] then [l] else strip_cr l # str_lines (tl r))"
  by pat_completeness auto
termination
proof (relation "measure length")
  fix s l r :: string
  assume "s \<noteq> []" "r = dropWhile (\<lambda>c. c \<noteq> newline) s" "r \<noteq> []"
  then have "length (tl r) < length r" and "length r \<le> length s"
    by (simp_all add: length_dropWhile_le)
  then show "(tl r, s) \<in> measure length" by simp
qed simp

declare str_lines.simps [simp del]

function split_ascii_whitespace :: "string \<Rightarrow> string list" where
  "split_ascii_whitespace s =
     (let t = dropWhile is_ascii_whitespace s
      in if t = [] then []
         else takeWhile (\<lambda>c. \<not> is_ascii_whitespace c) t #
              split_ascii_whitespace (dropWhile (\<lambda>c. \<not> is_ascii_whitespace c) t))"
  by pat_completeness auto
termination
proof (relation "measure length")
  fix s t :: string
  assume t: "t = dropWhile is_ascii_whitespace s" "t \<noteq> []"
  then have "\<not> is_ascii_whitespace (hd t)" by (simp add: hd_dropWhile)
  with t(2) have "length (dropWhile (\<lambda>c. \<not> is_ascii_whitespace c) t) < length t"
    by (cases t) (simp_all add: le_imp_less_Suc length_dropWhile_le)
  also have "length t \<le> length s" using t(1) by (simp add: length_dropWhile_le)
  finally show "(dropWhile (\<lambda>c. \<not> is_ascii_whitespace c) t, s) \<in> measure length" by simp
qed simp

declare split_ascii_whitespace.simps [simp del]

fun find_map :: "('a \<Rightarrow> 'b option) \<Rightarrow> 'a list \<Rightarrow> 'b option" where
  "find_map f [] = None"
| "find_map f (x # xs) = (case f x of None \<Rightarrow> find_map f xs | Some y \<Rightarrow> Some y)"

subsection \<open>Paths and C strings\<close>

type_synonym path = string

definition is_absolute :: "path \<Rightarrow> bool" where
  "is_absolute p \<longleftrightarrow> (case p of [] \<Rightarrow> False | c # _ \<Rightarrow> c = CHR ''/'')"

definition path_join :: "path \<Rightarrow> path \<Rightarrow> path" where
  "path_join a b =
     (if is_absolute b then b
      else if a = [] \<or> last a = CHR ''/'' then a @ b
      else a @ CHR ''/'' # b)"

definition trim_start_slash :: "path \<Rightarrow> path" where
  "trim_start_slash p = dropWhile (\<lambda>c. c = CHR ''/'') p"

definition strip_root :: "path \<Rightarrow> path option" where
  "strip_root p = (if is_absolute p then Some (trim_start_slash p) else None)"

text \<open>
  \<open>to_string_lossy\<close> on the bytes of a path: each maximal wrong piece of UTF-8 becomes U+FFFD.
  \<open>utf8_tail\<close> gives the ranges of the bytes that must follow a first byte.
\<close>

definition utf8_tail :: "nat \<Rightarrow> (nat \<times> nat) list option" where
  "utf8_tail b =
     (if b < 0x80 then Some []
      else if 0xC2 \<le> b \<and> b \<le> 0xDF then Some [(0x80, 0xBF)]
      else if b = 0xE0 then Some [(0xA0, 0xBF), (0x80, 0xBF)]
      else if b = 0xED then Some [(0x80, 0x9F), (0x80, 0xBF)]
      else if 0xE1 \<le> b \<and> b \<le> 0xEF then Some [(0x80, 0xBF), (0x80, 0xBF)]
      else if b = 0xF0 then Some [(0x90, 0xBF), (0x80, 0xBF), (0x80, 0xBF)]
      else if b = 0xF4 then Some [(0x80, 0x8F), (0x80, 0xBF), (0x80, 0xBF)]
      else if 0xF1 \<le> b \<and> b \<le> 0xF3 then Some [(0x80, 0xBF), (0x80, 0xBF), (0x80, 0xBF)]
      else None)"

fun utf8_match :: "(nat \<times> nat) list \<Rightarrow> string \<Rightarrow> nat" where
  "utf8_match ((lo, hi) # rs) (c # cs) =
     (if lo \<le> (of_char c :: nat) \<and> (of_char c :: nat) \<le> hi then Suc (utf8_match rs cs) else 0)"
| "utf8_match _ _ = 0"

function to_string_lossy :: "string \<Rightarrow> string" where
  "to_string_lossy [] = []"
| "to_string_lossy (c # cs) =
     (let fffd = map char_of [0xEF :: nat, 0xBF, 0xBD] in
      case utf8_tail (of_char c) of
        None \<Rightarrow> fffd @ to_string_lossy cs
      | Some rs \<Rightarrow>
          let n = utf8_match rs cs in
          (if n = length rs then c # take n cs else fffd) @ to_string_lossy (drop n cs))"
  by pat_completeness auto
termination by (relation "measure length") auto

definition cstring_new :: "string \<Rightarrow> string option" where
  "cstring_new s = (if NUL \<in> set s then None else Some s)"

lemma to_string_lossy_ascii:
  "list_all (\<lambda>c. (of_char c :: nat) < 0x80) s \<Longrightarrow> to_string_lossy s = s"
  by (induction s) (simp_all add: utf8_tail_def)

section \<open>Printing and parsing numbers\<close>

lemma of_char_digit_char [text_simps]: "d < 10 \<Longrightarrow> of_char (digit_char d) = 48 + d"
  by (simp add: digit_char_def)

lemma is_digit_digit_char [text_simps]: "d < 10 \<Longrightarrow> is_digit (digit_char d)"
  by (simp add: is_digit_def of_char_digit_char)

lemma dec_nonempty [simp]: "dec n \<noteq> []"
  by (subst dec.simps) simp

lemma dec_digits: "list_all is_digit (dec n)"
proof (induction n rule: dec.induct)
  case (1 n)
  show ?case
    by (cases "n < 10"; subst dec.simps) (simp_all add: 1 is_digit_digit_char)
qed

lemma dec_all_digits: "c \<in> set (dec n) \<Longrightarrow> is_digit c"
  using dec_digits by (auto simp: list_all_iff)

lemma digits_val_snoc: "digits_val (s @ [c]) = 10 * digits_val s + (of_char c - 48)"
  by (simp add: digits_val_def)

lemma digits_val_dec: "digits_val (dec n) = n"
proof (induction n rule: dec.induct)
  case (1 n)
  show ?case
  proof (cases "n < 10")
    case True
    then show ?thesis by (subst dec.simps) (simp add: digits_val_def of_char_digit_char)
  next
    case False
    then show ?thesis
      by (subst dec.simps) (simp add: digits_val_snoc 1 of_char_digit_char)
  qed
qed

lemma parse_nat_dec [simp, text_simps]: "parse_nat (dec n) = Some n"
  by (simp add: parse_nat_def dec_digits digits_val_dec)

lemma not_digit_chars [text_simps]:
  "\<not> is_digit CHR ''+''" "\<not> is_digit CHR ''-''" "\<not> is_digit CHR '' ''" "\<not> is_digit newline"
  by (simp_all add: is_digit_def newline_def)

lemma dec_hd_digit: "dec n = c # cs \<Longrightarrow> is_digit c"
  using dec_all_digits [of c n] by simp

lemma strip_plus_dec [simp]: "strip_plus (dec n) = dec n"
  using dec_hd_digit [of n] by (auto simp: strip_plus_def not_digit_chars split: list.splits)

lemma parse_u64_dec: "n < 2 ^ 64 \<Longrightarrow> parse_u64 (dec n) = Some (word_of_nat n)"
  by (simp add: parse_u64_def)

lemma parse_u64_dec_word [simp]: "parse_u64 (dec (unat (w :: u64))) = Some w"
proof -
  have "unat w < 2 ^ 64" using unsigned_less [of w, where ?'a = nat] by simp
  then have "parse_u64 (dec (unat w)) = Some (word_of_nat (unat w))" by (rule parse_u64_dec)
  then show ?thesis by simp
qed

lemma parse_i32_dec_nat:
  assumes "n < 2 ^ 31"
  shows "parse_i32 (dec n) = Some (int n)"
proof (cases "dec n")
  case Nil
  then show ?thesis by simp
next
  case (Cons c cs)
  then have "c \<noteq> CHR ''-''" using dec_hd_digit [of n c cs] by (auto simp: not_digit_chars)
  moreover have "parse_nat (strip_plus (c # cs)) = Some n"
    using Cons parse_nat_dec [of n] strip_plus_dec [of n] by simp
  ultimately show ?thesis using assms by (simp add: parse_i32_def Cons)
qed

lemma parse_i32_dec_int:
  assumes "- (2 ^ 31) \<le> i" and "i < 2 ^ 31"
  shows "parse_i32 (dec_int i) = Some i"
proof (cases "i < 0")
  case True
  have "nat (- i) \<le> 2 ^ 31" using assms True by simp
  with True show ?thesis by (simp add: dec_int_def parse_i32_def)
next
  case False
  have "nat i < 2 ^ 31" using assms False by simp
  from parse_i32_dec_nat [OF this] False show ?thesis by (simp add: dec_int_def)
qed

lemma dec_inj: "dec m = dec n \<Longrightarrow> m = n"
  by (metis parse_nat_dec option.inject)

lemma dec_eq_iff [simp]: "dec m = dec n \<longleftrightarrow> m = n"
  using dec_inj by blast

section \<open>Scanning text\<close>

lemma digit_no_space: "is_digit c \<Longrightarrow> \<not> is_space c"
  by (auto simp: is_digit_def is_space_def)

lemma ascii_whitespace_space: "is_ascii_whitespace c \<Longrightarrow> is_space c"
  by (auto simp: is_ascii_whitespace_def is_space_def)

lemma trim_framed:
  assumes "s \<noteq> []" and "\<not> is_space (hd s)" and "\<not> is_space (last s)" and "list_all is_space w"
  shows "trim (s @ w) = s"
proof -
  have "dropWhile is_space (s @ w) = s @ w"
    using assms(1,2) by (cases s) simp_all
  moreover have "dropWhile is_space (rev w @ rev s) = rev s"
  proof -
    obtain t c where s: "s = t @ [c]" using assms(1) by (cases s rule: rev_cases) auto
    have "dropWhile is_space (rev w @ c # rev t) = dropWhile is_space (c # rev t)"
      using assms(4) by (intro dropWhile_append2) (simp add: list_all_iff)
    with assms(3) s show ?thesis by simp
  qed
  ultimately show ?thesis by (simp add: trim_def)
qed

lemma str_lines_Nil [simp]: "str_lines [] = []"
  by (subst str_lines.simps) simp

lemma str_lines_line [text_simps]:
  assumes "newline \<notin> set l"
  shows "str_lines (l @ newline # r) = strip_cr l # str_lines r"
proof -
  have "takeWhile (\<lambda>c. c \<noteq> newline) (l @ newline # r) = l \<and>
        dropWhile (\<lambda>c. c \<noteq> newline) (l @ newline # r) = newline # r"
    using assms by (induction l) auto
  then show ?thesis by (subst str_lines.simps) (simp add: Let_def)
qed

lemma split_ascii_whitespace_Nil [simp]: "split_ascii_whitespace [] = []"
  by (subst split_ascii_whitespace.simps) simp

lemma split_ascii_whitespace_word:
  assumes "w \<noteq> []" and "list_all (\<lambda>c. \<not> is_ascii_whitespace c) w"
    and "r = [] \<or> is_ascii_whitespace (hd r)"
  shows "split_ascii_whitespace (w @ r) = w # split_ascii_whitespace r"
proof -
  have "dropWhile is_ascii_whitespace (w @ r) = w @ r"
    using assms(1,2) by (cases w) simp_all
  moreover have "takeWhile (\<lambda>c. \<not> is_ascii_whitespace c) (w @ r) = w"
    using assms(2,3) by (cases r) (simp_all add: takeWhile_append2 list_all_iff)
  moreover have "dropWhile (\<lambda>c. \<not> is_ascii_whitespace c) (w @ r) = r"
    using assms(2,3) by (cases r) (simp_all add: dropWhile_append2 list_all_iff)
  ultimately show ?thesis
    using assms(1) by (subst split_ascii_whitespace.simps) (simp add: Let_def)
qed

lemma split_ascii_whitespace_space:
  "is_ascii_whitespace c \<Longrightarrow> split_ascii_whitespace (c # r) = split_ascii_whitespace r"
  by (subst (1 2) split_ascii_whitespace.simps) simp

lemma split_ascii_whitespace_pair [text_simps]:
  assumes "k \<noteq> []" and "list_all (\<lambda>c. \<not> is_ascii_whitespace c) k"
    and "v \<noteq> []" and "list_all (\<lambda>c. \<not> is_ascii_whitespace c) v"
  shows "split_ascii_whitespace (k @ CHR '' '' # v) = [k, v]"
proof -
  have sp: "is_ascii_whitespace CHR '' ''" by (simp add: is_ascii_whitespace_def)
  have "split_ascii_whitespace (k @ CHR '' '' # v) = k # split_ascii_whitespace (CHR '' '' # v)"
    using assms sp by (intro split_ascii_whitespace_word) simp_all
  also have "split_ascii_whitespace (CHR '' '' # v) = split_ascii_whitespace v"
    using sp by (rule split_ascii_whitespace_space)
  also have "\<dots> = [v]"
    using split_ascii_whitespace_word [of v "[]"] assms by simp
  finally show ?thesis .
qed

section \<open>Paths\<close>

lemma is_absolute_Cons [simp]: "is_absolute (c # p) \<longleftrightarrow> c = CHR ''/''"
  by (simp add: is_absolute_def)

lemma is_absolute_Nil [simp]: "\<not> is_absolute []"
  by (simp add: is_absolute_def)

lemma trim_start_slash_relative: "\<not> is_absolute (trim_start_slash p)"
  by (induction p) (auto simp: trim_start_slash_def)

lemma path_join_under:
  "\<not> is_absolute b \<Longrightarrow> \<exists>sep. path_join a b = a @ sep @ b \<and> sep \<in> {[], [CHR ''/'']}"
  by (auto simp: path_join_def)

end
