(* ===== verification/OS.thy ===== *)
theory OS
  imports Bpf Abi RustStd
begin

text \<open>
  The operating system as the code sees it. A process makes calls (system calls, or the standard
  library, nix, landlock or tokio function that stands for one) and gets an error or an answer;
  what the kernel and the other processes do is the parameter \<open>k :: 'w kernel\<close>, a function of
  the call and of the world's state, and nothing is assumed of it. The state of a process
  is the world, its thread's \<open>errno\<close> and, for the theorems, the trace of the calls it has made
  with their replies.

  Code is a function from that state to an error or a value and the new state (\<open>io\<close>); \<open>bnd\<close>
  is the sequencing of a statement that ends in \<open>?\<close>. \<open>emits m E Q\<close> says which events \<open>m\<close> adds
  to the trace: \<open>E\<close> when it fails, \<open>Q\<close> when it succeeds. The rules of the collection
  \<open>emits_rules\<close> reduce a program to the predicates on its events.
\<close>

section \<open>Definitions\<close>

subsection \<open>Calls and answers\<close>

type_synonym fd = int

datatype error_kind = PermissionDenied | InvalidInput | UnexpectedEof | OtherKind

datatype io_error = OsError errno | StdError error_kind

datatype ms_flag = MS_REC | MS_PRIVATE | MS_NOSUID | MS_NODEV | MS_NOEXEC | MS_BIND | MS_REMOUNT | MS_RDONLY

datatype access_fs = ReadFile | WriteFile | ReadDir | MakeReg | RemoveFile | Truncate | MakeDir | MakeSym

datatype o_flag = O_RDWR | O_WRONLY | O_CREAT | O_TRUNC | O_NOCTTY | O_CLOEXEC | O_NONBLOCK

datatype prctl_op = PR_SET_PDEATHSIG | PR_SET_NO_NEW_PRIVS | PR_SET_DUMPABLE | PR_SET_SECUREBITS

datatype rlimit = RLIMIT_NOFILE | RLIMIT_FSIZE | RLIMIT_STACK

text \<open>The standard library's file operations.\<close>

datatype fs_call =
    Exists path | IsDir path | OpenForWrite path | WriteExisting path string
  | WriteNew path string | ReadToString path | CreateDir path nat | CreateDirAll path
  | CreateFile path | RemoveDir path | RemoveRegular path

datatype env_call =
    SystemTimeNow | ClockMonotonicRaw | InstantNow | InstantElapsed | SleepMs nat
  | ProcessId | Getuid | Getgid | StartTimer u64 u32 | TokioNew
  | ReadStdin | PrintOut string | PrintErr string

datatype proc_call =
    Fork | Clone3 u64 u64 | Execve string "string list" "string list" | ExitProcess int
  | Prctl prctl_op u64 | Capset u32 i32 "(u32 \<times> u32 \<times> u32) list" | Setrlimit rlimit u64 u64
  | Waitpid | UnblockSigchld | HandleSigchld

datatype fd_call =
    Dup2 fd fd | CloseFd fd | ReadFd fd nat | WriteFd fd "u8 list" | OpenFd path "o_flag set" nat
  | Pipe2 "o_flag set" | EventFd | SetNonblock fd | ClearCloexec fd | CloseRangeCloexec nat
  | AsyncFdNew fd | AwaitReadable fd | SelectReadable "fd list"

datatype mount_call =
    Mount "path option" path "string option" "ms_flag set" "string option"
  | PivotRoot path path | Chdir path | UmountDetach path

datatype lsm_call =
    LandlockVersion | LandlockCreate "access_fs set" | PathFdOpen path
  | LandlockAddRule fd "access_fs set" | LandlockRestrictSelf | SeccompLoad sock_fprog

datatype pty_call =
    PosixOpenpt "o_flag set" | Grantpt fd | Unlockpt fd | Ptsname fd | SetWinsize fd nat nat nat nat

datatype sock_call =
    SocketPair | LockMutex | WriteAll fd "u8 list" | ReadExact fd nat
  | SendMsg fd "u8 list" "fd list" | RecvMsg fd nat nat

datatype call =
    Fs fs_call | Env env_call | Proc proc_call | Fd fd_call | Mnt mount_call | Lsm lsm_call
  | Pty pty_call | Sock sock_call

text \<open>
  An answer has a number, bytes and descriptors; each call uses the part it documents.
  \<open>SelectReadable fds\<close> is tokio's \<open>select!\<close> under a running timer: it answers the descriptors that were
  readable when it ended, none of \<open>fds\<close> when the timer expired first.
\<close>

record answer =
  ans_num :: int
  ans_data :: "u8 list"
  ans_fds :: "fd list"

definition done_ans :: answer where
  "done_ans = \<lparr>ans_num = 0, ans_data = [], ans_fds = []\<rparr>"

type_synonym reply = "io_error + answer"
type_synonym event = "call \<times> reply"
type_synonym 'w kernel = "call \<Rightarrow> 'w \<Rightarrow> reply \<times> 'w"

record 'w os =
  world :: 'w
  last_errno :: errno
  trace :: "event list"

subsection \<open>Programs\<close>

type_synonym ('w, 'e, 'a) io = "'w os \<Rightarrow> ('e + 'a) \<times> 'w os"

definition ret :: "'a \<Rightarrow> ('w, 'e, 'a) io" where
  "ret x s = (Inr x, s)"

definition throw :: "'e \<Rightarrow> ('w, 'e, 'a) io" where
  "throw e s = (Inl e, s)"

definition bnd :: "('w, 'e, 'a) io \<Rightarrow> ('a \<Rightarrow> ('w, 'e, 'b) io) \<Rightarrow> ('w, 'e, 'b) io" where
  "bnd m f s = (case m s of (Inl e, t) \<Rightarrow> (Inl e, t) | (Inr x, t) \<Rightarrow> f x t)"

definition lift :: "'e + 'a \<Rightarrow> ('w, 'e, 'a) io" where
  "lift r s = (r, s)"

text \<open>\<open>attempt m\<close> runs \<open>m\<close> and hands its result on as a value (a \<open>match\<close> on the result).\<close>

definition attempt :: "('w, 'e, 'a) io \<Rightarrow> ('w, 'f, 'e + 'a) io" where
  "attempt m s = (case m s of (r, t) \<Rightarrow> (Inr r, t))"

text \<open>
  A call; on failure with an error of the operating system the thread's \<open>errno\<close> is set. An
  error of the standard library itself (a NUL in a path) leaves it as it was.
\<close>

definition syscall :: "'w kernel \<Rightarrow> call \<Rightarrow> ('w, io_error, answer) io" where
  "syscall k c s =
     (case k c (world s) of
        (r, w) \<Rightarrow>
          (r, s\<lparr>world := w,
               last_errno := (case r of Inl (OsError e) \<Rightarrow> e | _ \<Rightarrow> last_errno s),
               trace := trace s @ [(c, r)]\<rparr>))"

text \<open>\<open>.map_err(|e| g(e))\<close> and \<open>.map_err(|_| g(Errno::last()))\<close> on a call.\<close>

definition call_io :: "'w kernel \<Rightarrow> call \<Rightarrow> (io_error \<Rightarrow> 'e) \<Rightarrow> ('w, 'e, answer) io" where
  "call_io k c g s = (case syscall k c s of (r, t) \<Rightarrow> (map_err g r, t))"

definition call_last :: "'w kernel \<Rightarrow> call \<Rightarrow> (errno \<Rightarrow> 'e) \<Rightarrow> ('w, 'e, answer) io" where
  "call_last k c g s = (case syscall k c s of (r, t) \<Rightarrow> (map_err (\<lambda>_. g (last_errno t)) r, t))"

text \<open>nix reports an error of its own about a path as EINVAL.\<close>

definition nix_errno :: "io_error \<Rightarrow> errno" where
  "nix_errno e = (case e of OsError n \<Rightarrow> n | StdError _ \<Rightarrow> EINVAL)"

abbreviation call_nix :: "'w kernel \<Rightarrow> call \<Rightarrow> (errno \<Rightarrow> 'e) \<Rightarrow> ('w, 'e, answer) io" where
  "call_nix k c g \<equiv> call_io k c (\<lambda>e. g (nix_errno e))"

text \<open>A call whose result is ignored (\<open>let _ = ...\<close>), and one whose result is matched on.\<close>

definition call_ignore :: "'w kernel \<Rightarrow> call \<Rightarrow> ('w, 'e, unit) io" where
  "call_ignore k c s = (case syscall k c s of (_, t) \<Rightarrow> (Inr (), t))"

definition call_try :: "'w kernel \<Rightarrow> call \<Rightarrow> ('w, 'e, reply) io" where
  "call_try k c = attempt (syscall k c)"

definition get_errno :: "('w, 'e, errno) io" where
  "get_errno s = (Inr (last_errno s), s)"

text \<open>Statements in sequence, and the \<open>for\<close> loop with \<open>?\<close> in its body.\<close>

fun seq_all :: "('w, 'e, unit) io list \<Rightarrow> ('w, 'e, unit) io" where
  "seq_all [] = ret ()"
| "seq_all (m # ms) = bnd m (\<lambda>_. seq_all ms)"

definition unit_of :: "('w, 'e, 'a) io \<Rightarrow> ('w, 'e, unit) io" where
  "unit_of m = bnd m (\<lambda>_. ret ())"

definition for_each :: "'a list \<Rightarrow> ('a \<Rightarrow> ('w, 'e, unit) io) \<Rightarrow> ('w, 'e, unit) io" where
  "for_each xs f = seq_all (map f xs)"

subsection \<open>Kernels for the examples\<close>

text \<open>
  For the examples: a kernel whose replies depend on the call only, one that fails the calls of a
  kind with one error and does all others, answering number 0 and no data, and the state of a
  process that has made no call.
\<close>

definition scripted :: "(call \<Rightarrow> reply) \<Rightarrow> unit kernel" where
  "scripted f c w = (f c, w)"

definition failing :: "(call \<Rightarrow> bool) \<Rightarrow> io_error \<Rightarrow> unit kernel" where
  "failing R e c w = ((if R c then Inl e else Inr done_ans), w)"

abbreviation obliging :: "unit kernel" where
  "obliging \<equiv> failing (\<lambda>_. False) (OsError EIO)"

definition fresh_os :: "unit os" where
  "fresh_os = \<lparr>world = (), last_errno = 0, trace = []\<rparr>"

subsection \<open>What a program adds to the trace\<close>

definition emits ::
  "('w, 'e, 'a) io \<Rightarrow> ('e \<Rightarrow> event list \<Rightarrow> bool) \<Rightarrow> ('a \<Rightarrow> event list \<Rightarrow> bool) \<Rightarrow> bool" where
  "emits m E Q \<longleftrightarrow>
     (\<forall>s. \<exists>es. trace (snd (m s)) = trace s @ es \<and>
        (case fst (m s) of Inl e \<Rightarrow> E e es | Inr x \<Rightarrow> Q x es))"

abbreviation calls_of :: "event list \<Rightarrow> call list" where
  "calls_of \<equiv> map fst"

definition succeeded :: "event \<Rightarrow> bool" where
  "succeeded ev \<longleftrightarrow> (\<exists>a. snd ev = Inr a)"

definition all_ok :: "event list \<Rightarrow> bool" where
  "all_ok es \<longleftrightarrow> (\<forall>ev \<in> set es. succeeded ev)"

definition only :: "(call \<Rightarrow> bool) \<Rightarrow> event list \<Rightarrow> bool" where
  "only R es \<longleftrightarrow> (\<forall>ev \<in> set es. R (fst ev))"

named_theorems emits_rules \<open>one rule for each construct of a program\<close>

text \<open>What a program does in a state, unfolded (for runs on a concrete state).\<close>

lemmas run_defs = bnd_def attempt_def syscall_def call_io_def call_last_def call_ignore_def call_try_def
  get_errno_def unit_of_def for_each_def lift_def failing_def scripted_def fresh_os_def map_err_def

section \<open>The constructs\<close>

lemma ret_simps [simp]: "ret x s = (Inr x, s)" "throw e s = (Inl e, s)" "lift r s = (r, s)"
  by (simp_all add: ret_def throw_def lift_def)

lemma bnd_ret [simp]: "bnd (ret x) f = f x"
  by (simp add: fun_eq_iff bnd_def)

lemma bnd_assoc: "bnd (bnd m f) g = bnd m (\<lambda>x. bnd (f x) g)"
  by (auto simp: fun_eq_iff bnd_def split: sum.splits prod.splits)

lemma emitsI:
  "(\<And>s. \<exists>es. trace (snd (m s)) = trace s @ es \<and>
      (case fst (m s) of Inl e \<Rightarrow> E e es | Inr x \<Rightarrow> Q x es)) \<Longrightarrow> emits m E Q"
  by (simp add: emits_def)

lemma emitsE:
  assumes "emits m E Q" and "m s = (r, t)"
  obtains es where "trace t = trace s @ es" "case r of Inl e \<Rightarrow> E e es | Inr x \<Rightarrow> Q x es"
  using assms by (metis emits_def fst_conv snd_conv)

lemma emits_ok:
  assumes "emits m E Q" and "m s = (Inr x, t)"
  obtains es where "trace t = trace s @ es" "Q x es"
  using emitsE [OF assms] by auto

lemma emits_fail:
  assumes "emits m E Q" and "m s = (Inl e, t)"
  obtains es where "trace t = trace s @ es" "E e es"
  using emitsE [OF assms] by auto

lemma emits_Inr:
  "emits m E Q \<Longrightarrow> m s = (Inr x, t) \<Longrightarrow> \<exists>es. trace t = trace s @ es \<and> Q x es"
  by (metis emits_ok)

lemma emits_Inl:
  "emits m E Q \<Longrightarrow> m s = (Inl e, t) \<Longrightarrow> \<exists>es. trace t = trace s @ es \<and> E e es"
  by (metis emits_fail)

lemma emits_both:
  assumes "emits m (\<lambda>_. P) (\<lambda>_. P)"
  shows "\<exists>es. trace (snd (m s)) = trace s @ es \<and> P es"
proof -
  from assms obtain es where "trace (snd (m s)) = trace s @ es"
    "case fst (m s) of Inl e \<Rightarrow> P es | Inr x \<Rightarrow> P es" by (auto simp: emits_def)
  then show ?thesis by (cases "fst (m s)") auto
qed

lemma emits_keeps:
  assumes "emits m (\<lambda>_ _. True) (\<lambda>_ _. True)" and "ev \<in> set (trace s)"
  shows "ev \<in> set (trace (snd (m s)))"
  using emits_both [OF assms(1), of s] assms(2) by auto

lemma done_ans_simps [simp]: "ans_num done_ans = 0" "ans_data done_ans = []" "ans_fds done_ans = []"
  by (simp_all add: done_ans_def)

lemma emits_weaken:
  assumes "emits m E Q" and "\<And>e es. E e es \<Longrightarrow> E' e es" and "\<And>x es. Q x es \<Longrightarrow> Q' x es"
  shows "emits m E' Q'"
  unfolding emits_def
proof
  fix s
  obtain es where "trace (snd (m s)) = trace s @ es"
    "case fst (m s) of Inl e \<Rightarrow> E e es | Inr x \<Rightarrow> Q x es"
    using assms(1) by (auto simp: emits_def)
  with assms(2,3) show "\<exists>es. trace (snd (m s)) = trace s @ es \<and>
      (case fst (m s) of Inl e \<Rightarrow> E' e es | Inr x \<Rightarrow> Q' x es)"
    by (intro exI [of _ es]) (simp split: sum.splits)
qed

lemma emits_ret [emits_rules]: "Q x [] \<Longrightarrow> emits (ret x) E Q"
  by (simp add: emits_def)

lemma emits_throw [emits_rules]: "E e [] \<Longrightarrow> emits (throw e) E Q"
  by (simp add: emits_def)

lemma emits_lift [emits_rules]:
  "(\<And>e. r = Inl e \<Longrightarrow> E e []) \<Longrightarrow> (\<And>x. r = Inr x \<Longrightarrow> Q x []) \<Longrightarrow> emits (lift r) E Q"
  by (simp add: emits_def split: sum.splits)

lemma emits_bnd [emits_rules]:
  assumes "emits m E (\<lambda>x es. emits (f x) (\<lambda>e es'. E e (es @ es')) (\<lambda>y es'. Q y (es @ es')))"
  shows "emits (bnd m f) E Q"
proof (rule emitsI)
  fix s
  obtain r t where m: "m s = (r, t)" by (cases "m s")
  from assms m obtain es where es: "trace t = trace s @ es"
    "case r of Inl e \<Rightarrow> E e es
     | Inr x \<Rightarrow> emits (f x) (\<lambda>e es'. E e (es @ es')) (\<lambda>y es'. Q y (es @ es'))"
    by (rule emitsE)
  show "\<exists>es. trace (snd (bnd m f s)) = trace s @ es \<and>
      (case fst (bnd m f s) of Inl e \<Rightarrow> E e es | Inr x \<Rightarrow> Q x es)"
  proof (cases r)
    case (Inl e)
    with m es show ?thesis by (auto simp: bnd_def)
  next
    case (Inr x)
    obtain r' u where f: "f x t = (r', u)" by (cases "f x t")
    from es Inr have "emits (f x) (\<lambda>e es'. E e (es @ es')) (\<lambda>y es'. Q y (es @ es'))" by simp
    from this f obtain es' where "trace u = trace t @ es'"
      "case r' of Inl e \<Rightarrow> E e (es @ es') | Inr y \<Rightarrow> Q y (es @ es')"
      by (rule emitsE)
    with m Inr f es(1) show ?thesis
      by (intro exI [of _ "es @ es'"]) (simp add: bnd_def)
  qed
qed

lemma emits_attempt [emits_rules]:
  assumes "emits m (\<lambda>e. Q (Inl e)) (\<lambda>x. Q (Inr x))"
  shows "emits (attempt m) E Q"
proof (rule emitsI)
  fix s
  obtain r t where m: "m s = (r, t)" by (cases "m s")
  from assms m obtain es where "trace t = trace s @ es"
    "case r of Inl e \<Rightarrow> Q (Inl e) es | Inr x \<Rightarrow> Q (Inr x) es" by (rule emitsE)
  with m show "\<exists>es. trace (snd (attempt m s)) = trace s @ es \<and>
      (case fst (attempt m s) of Inl e \<Rightarrow> E e es | Inr x \<Rightarrow> Q x es)"
    by (intro exI [of _ es]) (cases r; simp add: attempt_def)
qed

lemma emits_call_io [emits_rules]:
  fixes k :: "'w kernel"
  assumes "\<And>e. E (g e) [(c, Inl e)]" and "\<And>a. Q a [(c, Inr a)]"
  shows "emits (call_io k c g) E Q"
proof (rule emitsI)
  fix s :: "'w os"
  obtain r w where k: "k c (world s) = (r, w)" by (cases "k c (world s)")
  show "\<exists>es. trace (snd (call_io k c g s)) = trace s @ es \<and>
      (case fst (call_io k c g s) of Inl e \<Rightarrow> E e es | Inr x \<Rightarrow> Q x es)"
    by (intro exI [of _ "[(c, r)]"]) (cases r; simp add: call_io_def syscall_def k assms)
qed

lemma emits_call_last [emits_rules]:
  fixes k :: "'w kernel"
  assumes "\<And>e n. (\<And>m. e = OsError m \<Longrightarrow> n = m) \<Longrightarrow> E (g n) [(c, Inl e)]" and "\<And>a. Q a [(c, Inr a)]"
  shows "emits (call_last k c g) E Q"
proof (rule emitsI)
  fix s :: "'w os"
  obtain r w where k: "k c (world s) = (r, w)" by (cases "k c (world s)")
  show "\<exists>es. trace (snd (call_last k c g s)) = trace s @ es \<and>
      (case fst (call_last k c g s) of Inl e \<Rightarrow> E e es | Inr x \<Rightarrow> Q x es)"
    by (intro exI [of _ "[(c, r)]"]) (cases r; simp add: call_last_def syscall_def k assms)
qed

lemma emits_call_ignore [emits_rules]:
  "(\<And>r. Q () [(c, r)]) \<Longrightarrow> emits (call_ignore k c) E Q"
  by (auto simp: emits_def call_ignore_def syscall_def split: prod.splits)

lemma emits_call_try [emits_rules]:
  "(\<And>r. Q r [(c, r)]) \<Longrightarrow> emits (call_try k c) E Q"
  by (auto simp: emits_def call_try_def attempt_def syscall_def split: prod.splits)

lemma emits_get_errno [emits_rules]: "(\<And>n. Q n []) \<Longrightarrow> emits get_errno E Q"
  by (simp add: emits_def get_errno_def)

lemma emits_unit_of [emits_rules]: "emits m E (\<lambda>_. Q ()) \<Longrightarrow> emits (unit_of m) E Q"
  unfolding unit_of_def
  by (rule emits_bnd, erule emits_weaken) (simp_all add: emits_ret)

lemma emits_if [emits_rules]:
  "(b \<Longrightarrow> emits m E Q) \<Longrightarrow> (\<not> b \<Longrightarrow> emits n E Q) \<Longrightarrow> emits (if b then m else n) E Q"
  by simp

lemma emits_seq_Nil [emits_rules]: "Q () [] \<Longrightarrow> emits (seq_all []) E Q"
  by (simp add: emits_ret)

lemma emits_seq_Cons [emits_rules]:
  "emits (bnd m (\<lambda>_. seq_all ms)) E Q \<Longrightarrow> emits (seq_all (m # ms)) E Q"
  by simp

lemma succeeded_simps [simp]: "succeeded (c, Inr a)" "\<not> succeeded (c, Inl e)"
  by (simp_all add: succeeded_def)

lemma all_ok_simps [simp]:
  "all_ok []" "all_ok (ev # es) \<longleftrightarrow> succeeded ev \<and> all_ok es" "all_ok (es @ es') \<longleftrightarrow> all_ok es \<and> all_ok es'"
  by (auto simp: all_ok_def)

lemma only_simps [simp]:
  "only R []" "only R (ev # es) \<longleftrightarrow> R (fst ev) \<and> only R es" "only R (es @ es') \<longleftrightarrow> only R es \<and> only R es'"
  by (auto simp: only_def)

text \<open>
  A loop whose body makes the calls \<open>L x\<close>, all successful: the loop makes them in order. When it
  fails, its calls are still of the kind \<open>R\<close>.
\<close>

lemma emits_for_each:
  assumes "\<And>x. x \<in> set xs \<Longrightarrow>
    emits (f x) (\<lambda>e es. P e \<and> only R es) (\<lambda>_ es. calls_of es = L x \<and> all_ok es \<and> only R es)"
  shows "emits (for_each xs f) (\<lambda>e es. P e \<and> only R es)
    (\<lambda>_ es. calls_of es = concat (map L xs) \<and> all_ok es \<and> only R es)"
  using assms
proof (induction xs)
  case Nil
  show ?case unfolding for_each_def list.map seq_all.simps by (rule emits_ret) simp
next
  case (Cons x xs)
  let ?Q = "\<lambda>l es. calls_of es = l \<and> all_ok es \<and> only R es"
  have step: "emits (f x) (\<lambda>e es. P e \<and> only R es) (\<lambda>_. ?Q (L x))"
    using Cons.prems by simp
  have IH: "emits (for_each xs f) (\<lambda>e es. P e \<and> only R es) (\<lambda>_. ?Q (concat (map L xs)))"
    using Cons by simp
  have "emits (for_each xs f) (\<lambda>e es'. P e \<and> only R (es @ es'))
      (\<lambda>_ es'. ?Q (concat (map L (x # xs))) (es @ es'))" if "?Q (L x) es" for es
    using that by (intro emits_weaken [OF IH]) simp_all
  then show ?case
    unfolding for_each_def list.map(2) seq_all.simps
    by (intro emits_bnd, intro emits_weaken [OF step]) (simp_all add: for_each_def)
qed

end
