(* ===== verification/Errors.thy ===== *)
theory Errors
  imports OS
begin

text \<open>
  \<^verbatim>\<open>src/error.rs\<close>: \<open>SandboxError\<close> with its message and its source, and \<open>ChildStage\<close>, the
  one-byte code of the child's setup stages that travels in the error pipe. The texts of
  an \<open>Errno\<close> and of an \<open>io::Error\<close> are nix's and the standard library's, parameters of the
  message. Stages are ordered by their code.
\<close>

section \<open>Definitions\<close>

datatype child_stage =
    WaitForMapping | BreakPropagation | BuildRootfs | MountDevpts | MountProc | MountWorkspace
  | MaskProc | PivotRootStage | LandlockStage | CapabilityDrop | PtySlaveSetup | NoNewPrivs
  | SeccompStage | ExecStage

definition stage_u8 :: "child_stage \<Rightarrow> u8" where
  "stage_u8 s =
     (case s of
        WaitForMapping \<Rightarrow> 1 | BreakPropagation \<Rightarrow> 2 | BuildRootfs \<Rightarrow> 3 | MountDevpts \<Rightarrow> 4
      | MountProc \<Rightarrow> 5 | MountWorkspace \<Rightarrow> 6 | MaskProc \<Rightarrow> 7 | PivotRootStage \<Rightarrow> 8
      | LandlockStage \<Rightarrow> 9 | CapabilityDrop \<Rightarrow> 10 | PtySlaveSetup \<Rightarrow> 11 | NoNewPrivs \<Rightarrow> 12
      | SeccompStage \<Rightarrow> 13 | ExecStage \<Rightarrow> 14)"

definition from_u8 :: "u8 \<Rightarrow> child_stage option" where
  "from_u8 v =
     (if v = 1 then Some WaitForMapping
      else if v = 2 then Some BreakPropagation
      else if v = 3 then Some BuildRootfs
      else if v = 4 then Some MountDevpts
      else if v = 5 then Some MountProc
      else if v = 6 then Some MountWorkspace
      else if v = 7 then Some MaskProc
      else if v = 8 then Some PivotRootStage
      else if v = 9 then Some LandlockStage
      else if v = 10 then Some CapabilityDrop
      else if v = 11 then Some PtySlaveSetup
      else if v = 12 then Some NoNewPrivs
      else if v = 13 then Some SeccompStage
      else if v = 14 then Some ExecStage
      else None)"

text \<open>The \<open>{stage:?}\<close> of the derived \<open>Debug\<close>.\<close>

definition debug_stage :: "child_stage \<Rightarrow> string" where
  "debug_stage s =
     (case s of
        WaitForMapping \<Rightarrow> ''WaitForMapping'' | BreakPropagation \<Rightarrow> ''BreakPropagation''
      | BuildRootfs \<Rightarrow> ''BuildRootfs'' | MountDevpts \<Rightarrow> ''MountDevpts''
      | MountProc \<Rightarrow> ''MountProc'' | MountWorkspace \<Rightarrow> ''MountWorkspace''
      | MaskProc \<Rightarrow> ''MaskProc'' | PivotRootStage \<Rightarrow> ''PivotRoot''
      | LandlockStage \<Rightarrow> ''Landlock'' | CapabilityDrop \<Rightarrow> ''CapabilityDrop''
      | PtySlaveSetup \<Rightarrow> ''PtySlaveSetup'' | NoNewPrivs \<Rightarrow> ''NoNewPrivs''
      | SeccompStage \<Rightarrow> ''Seccomp'' | ExecStage \<Rightarrow> ''Exec'')"

datatype sandbox_error =
    CgroupCreateFailed io_error
  | CgroupDelegationMissing
  | NamespaceCloneFailed errno
  | UserNamespaceSetupFailed errno
  | MountFailed string errno
  | PivotRootFailed errno
  | LandlockUnsupported u32
  | LandlockRulesetFailed errno
  | SeccompLoadFailed errno
  | PtyOpenFailed errno
  | ForkServerUnavailable
  | ExecFailed errno
  | IoTimeout
  | WaitFailed errno
  | ConfigInvalid string
  | IpcError io_error
  | CgroupWriteFailed string io_error
  | ChildSetupFailed child_stage i32
  | CapabilityDropFailed errno

text \<open>The ellipsis of the clone message is the three UTF-8 bytes of U+2026.\<close>

definition display_error ::
  "(errno \<Rightarrow> string) \<Rightarrow> (io_error \<Rightarrow> string) \<Rightarrow> sandbox_error \<Rightarrow> string" where
  "display_error se sio err =
     (case err of
        CgroupCreateFailed e \<Rightarrow> ''cgroup create failed: '' @ sio e
      | CgroupDelegationMissing \<Rightarrow>
          ''cgroup v2 delegation missing: cgroup_parent path is not writable; '' @
          ''configure systemd Delegate=yes or grant write access to the subtree''
      | NamespaceCloneFailed e \<Rightarrow>
          ''clone3(CLONE_NEWUSER|'' @ [CHR 0xE2, CHR 0x80, CHR 0xA6] @ '') failed: '' @ se e
      | UserNamespaceSetupFailed e \<Rightarrow> ''uid/gid mapping write failed: '' @ se e
      | MountFailed step src \<Rightarrow> ''mount failed at '' @ [CHR 0x27] @ step @ [CHR 0x27] @ '': '' @ se src
      | PivotRootFailed e \<Rightarrow> ''pivot_root failed: '' @ se e
      | LandlockUnsupported v \<Rightarrow>
          ''Landlock ABI version '' @ dec (unat v) @
          '' is below required minimum 2 (needs Linux 5.19+)''
      | LandlockRulesetFailed e \<Rightarrow> ''Landlock ruleset operation failed: '' @ se e
      | SeccompLoadFailed e \<Rightarrow> ''seccomp filter load failed: '' @ se e
      | PtyOpenFailed e \<Rightarrow> ''PTY open failed: '' @ se e
      | ForkServerUnavailable \<Rightarrow>
          ''fork server is unavailable or crashed; was Runtime::init() called?''
      | ExecFailed e \<Rightarrow> ''execve failed: '' @ se e
      | IoTimeout \<Rightarrow> ''I/O timeout reading from PTY master''
      | WaitFailed e \<Rightarrow> ''waitid(P_PIDFD) failed: '' @ se e
      | ConfigInvalid msg \<Rightarrow> ''invalid SandboxConfig: '' @ msg
      | IpcError e \<Rightarrow> ''IPC error with fork server: '' @ sio e
      | CgroupWriteFailed p src \<Rightarrow>
          ''cgroup write to '' @ [CHR 0x27] @ p @ [CHR 0x27] @ '' failed: '' @ sio src
      | ChildSetupFailed stage e \<Rightarrow>
          ''child setup failed at stage '' @ debug_stage stage @ '' (errno '' @ dec_int (sint e) @ '')''
      | CapabilityDropFailed e \<Rightarrow> ''capability drop failed: '' @ se e)"

definition error_source :: "sandbox_error \<Rightarrow> io_error option" where
  "error_source err =
     (case err of
        CgroupCreateFailed e \<Rightarrow> Some e
      | IpcError e \<Rightarrow> Some e
      | CgroupWriteFailed _ src \<Rightarrow> Some src
      | _ \<Rightarrow> None)"

lemma from_u8_stage_u8 [simp]: "from_u8 (stage_u8 s) = Some s"
  by (cases s) (simp_all add: stage_u8_def from_u8_def)

instantiation child_stage :: linorder
begin

definition less_eq_child_stage :: "child_stage \<Rightarrow> child_stage \<Rightarrow> bool" where
  "s \<le> t \<longleftrightarrow> stage_u8 s \<le> stage_u8 t"

definition less_child_stage :: "child_stage \<Rightarrow> child_stage \<Rightarrow> bool" where
  "s < t \<longleftrightarrow> stage_u8 s < stage_u8 t"

instance
proof
  fix s t u :: child_stage
  show "s < t \<longleftrightarrow> s \<le> t \<and> \<not> t \<le> s"
    by (auto simp: less_eq_child_stage_def less_child_stage_def)
  show "s \<le> s" and "s \<le> t \<Longrightarrow> t \<le> u \<Longrightarrow> s \<le> u" and "s \<le> t \<or> t \<le> s"
    by (auto simp: less_eq_child_stage_def)
  show "s \<le> t \<Longrightarrow> t \<le> s \<Longrightarrow> s = t"
    unfolding less_eq_child_stage_def by (metis from_u8_stage_u8 option.inject order.antisym)
qed

end

section \<open>Stage codes\<close>

lemma from_u8_Some: "from_u8 v = Some s \<Longrightarrow> v = stage_u8 s"
  by (auto simp: from_u8_def stage_u8_def split: if_splits)

text \<open>
  Stage codes survive the pipe: decoding inverts the \<open>repr(u8)\<close> code, and the
  codes decoded are exactly 1 to 14.
\<close>

theorem stage_code_roundtrip:
  "from_u8 (stage_u8 s) = Some s \<and>
   (from_u8 v = Some s \<longleftrightarrow> v = stage_u8 s) \<and>
   (from_u8 v = None \<longleftrightarrow> \<not> (1 \<le> v \<and> v \<le> 14))"
proof -
  have "from_u8 v = None \<longleftrightarrow> \<not> (1 \<le> v \<and> v \<le> 14)"
  proof
    assume n: "from_u8 v = None"
    show "\<not> (1 \<le> v \<and> v \<le> 14)"
    proof
      assume "1 \<le> v \<and> v \<le> 14"
      then have "unat v \<in> {1..14}" by (simp add: word_le_nat_alt)
      then have "unat v \<in> set [1..<15]" by simp
      then have "v \<in> {1, 2, 3, 4, 5, 6, 7, 8, 9, 10, 11, 12, 13, 14}"
        by (auto simp: upt_rec word_unat_eq_iff)
      with n show False by (auto simp: from_u8_def)
    qed
  qed (auto simp: from_u8_def)
  then show ?thesis by (auto dest: from_u8_Some)
qed

end
