(* ===== verification/Steps.thy ===== *)
theory Steps
  imports Errors
begin

text \<open>
  Code that gives up at the first failed call. \<open>ff R m D Q\<close> says of such a program: the calls it
  makes succeed, except those of the kind \<open>R\<close>, whose result the code ignores or only looks at;
  when it fails with \<open>e\<close>, its last event is the one to blame, in the relation \<open>D\<close> to \<open>e\<close>; when it
  succeeds its events satisfy \<open>Q\<close>. The rules of \<open>ff_rules\<close> follow the constructs, so that the
  facts of a sequence come from those of its parts.
\<close>

definition ok_but :: "(call \<Rightarrow> bool) \<Rightarrow> event list \<Rightarrow> bool" where
  "ok_but R es \<longleftrightarrow> (\<forall>ev \<in> set es. succeeded ev \<or> R (fst ev))"

definition blamed :: "(call \<Rightarrow> bool) \<Rightarrow> ('e \<Rightarrow> event \<Rightarrow> bool) \<Rightarrow> 'e \<Rightarrow> event list \<Rightarrow> bool" where
  "blamed R D e es \<longleftrightarrow> (\<exists>pre ev. es = pre @ [ev] \<and> ok_but R pre \<and> D e ev)"

definition ff ::
  "(call \<Rightarrow> bool) \<Rightarrow> ('w, 'e, 'a) io \<Rightarrow> ('e \<Rightarrow> event \<Rightarrow> bool) \<Rightarrow> ('a \<Rightarrow> event list \<Rightarrow> bool) \<Rightarrow> bool" where
  "ff R m D Q \<longleftrightarrow> emits m (blamed R D) (\<lambda>x es. ok_but R es \<and> Q x es)"

named_theorems ff_rules \<open>one rule for each construct of a program that gives up at the first failure\<close>

lemma ok_but_simps [simp]:
  "ok_but R []" "ok_but R (ev # es) \<longleftrightarrow> (succeeded ev \<or> R (fst ev)) \<and> ok_but R es"
  "ok_but R (es @ es') \<longleftrightarrow> ok_but R es \<and> ok_but R es'"
  by (auto simp: ok_but_def)

lemma blamed_now: "D e ev \<Longrightarrow> blamed R D e [ev]"
  unfolding blamed_def by (intro exI [of _ "[]"]) simp

lemma blamed_later: "ok_but R es \<Longrightarrow> blamed R D e es' \<Longrightarrow> blamed R D e (es @ es')"
  unfolding blamed_def by (metis append_assoc ok_but_simps(3))

lemma blamed_Cons: "succeeded ev \<or> R (fst ev) \<Longrightarrow> blamed R D e es \<Longrightarrow> blamed R D e (ev # es)"
  using blamed_later [of R "[ev]"] by simp

lemma blamed_last: "ok_but R pre \<Longrightarrow> D e ev \<Longrightarrow> blamed R D e (pre @ [ev])"
  unfolding blamed_def by blast

lemma blamed_mono: "blamed R D e es \<Longrightarrow> (\<And>ev. D e ev \<Longrightarrow> D' e' ev) \<Longrightarrow> blamed R D' e' es"
  unfolding blamed_def by blast

lemma ffI: "emits m (blamed R D) (\<lambda>x es. ok_but R es \<and> Q x es) \<Longrightarrow> ff R m D Q"
  by (simp add: ff_def)

lemma ff_weaken:
  assumes "ff R m D Q" and "\<And>e ev. D e ev \<Longrightarrow> D' e ev" and "\<And>x es. ok_but R es \<Longrightarrow> Q x es \<Longrightarrow> Q' x es"
  shows "ff R m D' Q'"
  using assms unfolding ff_def by (elim emits_weaken) (auto intro: blamed_mono)

lemma ff_bnd:
  assumes "ff R m D P" and "\<And>x es. P x es \<Longrightarrow> ff R (f x) D (\<lambda>y es'. Q y (es @ es'))"
  shows "ff R (bnd m f) D Q"
  unfolding ff_def
proof (rule emits_bnd, rule emits_weaken)
  show "emits m (blamed R D) (\<lambda>x es. ok_but R es \<and> P x es)" using assms(1) by (simp add: ff_def)
next
  fix x es
  assume P: "ok_but R es \<and> P x es"
  then have "emits (f x) (blamed R D) (\<lambda>y es'. ok_but R es' \<and> Q y (es @ es'))"
    using assms(2) by (simp add: ff_def)
  then show "emits (f x) (\<lambda>e es'. blamed R D e (es @ es')) (\<lambda>y es'. ok_but R (es @ es') \<and> Q y (es @ es'))"
    by (rule emits_weaken) (use P in \<open>simp_all add: blamed_later\<close>)
qed

text \<open>Sequencing, with the first part's events fixed by an existential the second part keeps.\<close>

lemma ff_seq:
  "ff R m D (\<lambda>_ es. ff R n D (\<lambda>x es'. Q x (es @ es'))) \<Longrightarrow> ff R (bnd m (\<lambda>_. n)) D Q"
  by (rule ff_bnd) assumption+

lemma ff_bind [ff_rules]:
  "ff R m D (\<lambda>x es. ff R (f x) D (\<lambda>y es'. Q y (es @ es'))) \<Longrightarrow> ff R (bnd m f) D Q"
  by (rule ff_bnd) assumption+

lemma ff_ret [ff_rules]: "Q x [] \<Longrightarrow> ff R (ret x) D Q"
  by (auto simp: ff_def intro: emits_ret)

lemma ff_call_io [ff_rules]:
  "(\<And>e. D (g e) (c, Inl e)) \<Longrightarrow> (\<And>a. Q a [(c, Inr a)]) \<Longrightarrow> ff R (call_io k c g) D Q"
  unfolding ff_def by (intro emits_call_io) (simp_all add: blamed_now)

lemma ff_call_last [ff_rules]:
  "(\<And>e n. (\<And>m. e = OsError m \<Longrightarrow> n = m) \<Longrightarrow> D (g n) (c, Inl e)) \<Longrightarrow> (\<And>a. Q a [(c, Inr a)]) \<Longrightarrow>
   ff R (call_last k c g) D Q"
  unfolding ff_def by (intro emits_call_last) (simp_all add: blamed_now)

lemma ff_call_ignore [ff_rules]:
  "R c \<Longrightarrow> (\<And>r. Q () [(c, r)]) \<Longrightarrow> ff R (call_ignore k c) D Q"
  unfolding ff_def by (intro emits_call_ignore) simp

lemma ff_call_try [ff_rules]:
  "R c \<Longrightarrow> (\<And>r. Q r [(c, r)]) \<Longrightarrow> ff R (call_try k c) D Q"
  unfolding ff_def by (intro emits_call_try) simp

lemma ff_unit_of [ff_rules]: "ff R m D (\<lambda>_. Q ()) \<Longrightarrow> ff R (unit_of m) D Q"
  by (simp add: ff_def emits_unit_of)

lemma ff_if [ff_rules]:
  "(b \<Longrightarrow> ff R m D Q) \<Longrightarrow> (\<not> b \<Longrightarrow> ff R n D Q) \<Longrightarrow> ff R (if b then m else n) D Q"
  by simp

lemma ff_seq_Nil [ff_rules]: "Q () [] \<Longrightarrow> ff R (seq_all []) D Q"
  by (simp add: ff_ret)

lemma ff_seq_Cons [ff_rules]: "ff R (bnd m (\<lambda>_. seq_all ms)) D Q \<Longrightarrow> ff R (seq_all (m # ms)) D Q"
  by simp

lemma ff_for_each:
  assumes "\<And>x. x \<in> set xs \<Longrightarrow> ff R (f x) D (\<lambda>_. L x)"
  shows "ff R (for_each xs f) D (\<lambda>_ es. \<exists>ess. es = concat ess \<and> list_all2 L xs ess)"
  using assms
proof (induction xs)
  case Nil
  show ?case unfolding for_each_def list.map by (rule ff_seq_Nil) simp
next
  case (Cons x xs)
  have IH: "ff R (for_each xs f) D (\<lambda>_ es. \<exists>ess. es = concat ess \<and> list_all2 L xs ess)"
    using Cons by simp
  have "ff R (bnd (f x) (\<lambda>_. for_each xs f)) D
      (\<lambda>_ es. \<exists>ess. es = concat ess \<and> list_all2 L (x # xs) ess)"
  proof (rule ff_bnd)
    show "ff R (f x) D (\<lambda>_. L x)" using Cons.prems by simp
  next
    fix es
    assume "L x es"
    then show "ff R (for_each xs f) D (\<lambda>_ es'. \<exists>ess. es @ es' = concat ess \<and> list_all2 L (x # xs) ess)"
      by (intro ff_weaken [OF IH]) (auto intro: exI [of _ "es # _"])
  qed
  then show ?case by (simp add: for_each_def)
qed

text \<open>A program's error turned into another's (\<open>map_err\<close> on the result of a whole routine).\<close>

definition map_error :: "('e \<Rightarrow> 'f) \<Rightarrow> ('w, 'e, 'a) io \<Rightarrow> ('w, 'f, 'a) io" where
  "map_error g m s = (case m s of (r, t) \<Rightarrow> (map_err g r, t))"

text \<open>The same with \<open>Errno::last()\<close> in place of the error.\<close>

definition or_errno :: "(errno \<Rightarrow> 'f) \<Rightarrow> ('w, 'e, 'a) io \<Rightarrow> ('w, 'f, 'a) io" where
  "or_errno g m s = (case m s of (r, t) \<Rightarrow> (map_err (\<lambda>_. g (last_errno t)) r, t))"

lemma emits_map_error [emits_rules]:
  assumes "emits m (\<lambda>e. E (g e)) Q" shows "emits (map_error g m) E Q"
proof (rule emitsI)
  fix s
  obtain r t where m: "m s = (r, t)" by (cases "m s")
  from assms m obtain es where "trace t = trace s @ es"
    "case r of Inl e \<Rightarrow> E (g e) es | Inr x \<Rightarrow> Q x es" by (rule emitsE)
  with m show "\<exists>es. trace (snd (map_error g m s)) = trace s @ es \<and>
      (case fst (map_error g m s) of Inl e \<Rightarrow> E e es | Inr x \<Rightarrow> Q x es)"
    by (intro exI [of _ es]) (cases r; simp add: map_error_def)
qed

lemma emits_or_errno [emits_rules]:
  assumes "emits m (\<lambda>_ es. \<forall>n. E (g n) es) Q" shows "emits (or_errno g m) E Q"
proof (rule emitsI)
  fix s
  obtain r t where m: "m s = (r, t)" by (cases "m s")
  from assms m obtain es where "trace t = trace s @ es"
    "case r of Inl e \<Rightarrow> \<forall>n. E (g n) es | Inr x \<Rightarrow> Q x es" by (rule emitsE)
  with m show "\<exists>es. trace (snd (or_errno g m s)) = trace s @ es \<and>
      (case fst (or_errno g m s) of Inl e \<Rightarrow> E e es | Inr x \<Rightarrow> Q x es)"
    by (intro exI [of _ es]) (cases r; simp add: or_errno_def)
qed

lemma ff_map_error:
  assumes "ff R m D Q" and "\<And>e ev. D e ev \<Longrightarrow> D' (g e) ev"
  shows "ff R (map_error g m) D' Q"
  unfolding ff_def
proof (rule emits_map_error, rule emits_weaken)
  show "emits m (blamed R D) (\<lambda>x es. ok_but R es \<and> Q x es)" using assms(1) by (simp add: ff_def)
qed (use assms(2) in \<open>auto elim: blamed_mono\<close>)

lemma ff_or_errno:
  assumes "ff R m D Q" and "\<And>e ev n. D e ev \<Longrightarrow> D' (g n) ev"
  shows "ff R (or_errno g m) D' Q"
  unfolding ff_def
proof (rule emits_or_errno, rule emits_weaken)
  show "emits m (blamed R D) (\<lambda>x es. ok_but R es \<and> Q x es)" using assms(1) by (simp add: ff_def)
qed (use assms(2) in \<open>auto elim: blamed_mono\<close>)

section \<open>Calls a program never makes\<close>

text \<open>\<open>stays N m\<close>: whatever happens, every call of \<open>m\<close> is of the kind \<open>N\<close>.\<close>

definition stays :: "(call \<Rightarrow> bool) \<Rightarrow> ('w, 'e, 'a) io \<Rightarrow> bool" where
  "stays N m \<longleftrightarrow> emits m (\<lambda>_. only N) (\<lambda>_. only N)"

named_theorems stays_rules \<open>one rule for each construct: all its calls are of a kind\<close>

lemma stays_bnd [stays_rules]:
  assumes "stays N m" and "\<And>x. stays N (f x)" shows "stays N (bnd m f)"
  unfolding stays_def
proof (rule emits_bnd, rule emits_weaken)
  show "emits m (\<lambda>_. only N) (\<lambda>_. only N)" using assms(1) by (simp add: stays_def)
next
  fix x es assume "only N es"
  with assms(2) show "emits (f x) (\<lambda>e es'. only N (es @ es')) (\<lambda>y es'. only N (es @ es'))"
    by (auto simp: stays_def elim: emits_weaken)
qed

lemma stays_simple [stays_rules]:
  "stays N (ret x)" "stays N (throw e)" "stays N (lift r)" "stays N get_errno"
  "N c \<Longrightarrow> stays N (call_io k c g)" "N c \<Longrightarrow> stays N (call_last k c h)"
  "N c \<Longrightarrow> stays N (call_ignore k c)" "N c \<Longrightarrow> stays N (call_try k c)"
  unfolding stays_def by (auto intro!: emits_rules)

lemma stays_attempt [stays_rules]: "stays N m \<Longrightarrow> stays N (attempt m)"
  unfolding stays_def by (rule emits_attempt)

lemma stays_unit_of [stays_rules]: "stays N m \<Longrightarrow> stays N (unit_of m)"
  by (simp add: unit_of_def stays_rules)

lemma stays_map_error [stays_rules]: "stays N m \<Longrightarrow> stays N (map_error g m)"
  unfolding stays_def by (rule emits_map_error)

lemma stays_or_errno [stays_rules]: "stays N m \<Longrightarrow> stays N (or_errno g m)"
  unfolding stays_def by (rule emits_or_errno) simp

lemma stays_seq_all: "list_all (stays N) ms \<Longrightarrow> stays N (seq_all ms)"
  by (induction ms) (simp_all add: stays_rules)

lemma stays_for_each [stays_rules]: "(\<And>x. x \<in> set xs \<Longrightarrow> stays N (f x)) \<Longrightarrow> stays N (for_each xs f)"
  unfolding for_each_def by (rule stays_seq_all) (simp add: list_all_iff)

lemma stays_if [stays_rules]: "(b \<Longrightarrow> stays N m) \<Longrightarrow> (\<not> b \<Longrightarrow> stays N n) \<Longrightarrow> stays N (if b then m else n)"
  by simp

lemma stays_trace:
  "stays N m \<Longrightarrow> \<exists>es. trace (snd (m s)) = trace s @ es \<and> only N es"
  unfolding stays_def by (rule emits_both)

lemma stays_mono: "stays N m \<Longrightarrow> (\<And>c. N c \<Longrightarrow> N' c) \<Longrightarrow> stays N' m"
  unfolding stays_def by (erule emits_weaken) (auto simp: only_def)

lemma emits_conj:
  assumes "emits m E Q" and "emits m E' Q'"
  shows "emits m (\<lambda>e es. E e es \<and> E' e es) (\<lambda>x es. Q x es \<and> Q' x es)"
  unfolding emits_def
proof
  fix s
  obtain es where es: "trace (snd (m s)) = trace s @ es"
    and c: "case fst (m s) of Inl e \<Rightarrow> E e es | Inr x \<Rightarrow> Q x es"
    using assms(1) by (auto simp: emits_def)
  obtain es' where "trace (snd (m s)) = trace s @ es'"
    and c': "case fst (m s) of Inl e \<Rightarrow> E' e es' | Inr x \<Rightarrow> Q' x es'"
    using assms(2) by (auto simp: emits_def)
  with es have "es' = es" by simp
  with es c c' show "\<exists>es. trace (snd (m s)) = trace s @ es \<and>
      (case fst (m s) of Inl e \<Rightarrow> E e es \<and> E' e es | Inr x \<Rightarrow> Q x es \<and> Q' x es)"
    by (intro exI [of _ es]) (simp split: sum.splits)
qed

section \<open>The errno that is told\<close>

text \<open>
  \<open>errno_after n es\<close> is the thread's \<open>errno\<close> after the events \<open>es\<close>: that of the last call the operating
  system refused, \<open>n\<close> if there is none. An error code is told rightly (\<open>errno_told\<close>) when it is that,
  or \<open>EINVAL\<close> for a last call that nix or the standard library refused without asking the system.
\<close>

fun errno_after :: "errno \<Rightarrow> event list \<Rightarrow> errno" where
  "errno_after n [] = n"
| "errno_after n (ev # es) = errno_after (case snd ev of Inl (OsError e) \<Rightarrow> e | _ \<Rightarrow> n) es"

definition errno_told :: "errno \<Rightarrow> errno \<Rightarrow> event list \<Rightarrow> bool" where
  "errno_told e n es \<longleftrightarrow>
     e = errno_after n es \<or> e = EINVAL \<and> es \<noteq> [] \<and> (\<exists>x. snd (last es) = Inl (StdError x))"

text \<open>
  \<open>honest eo m\<close>: \<open>m\<close> keeps \<open>errno\<close> as its calls leave it, and when it fails with an error of code \<open>e\<close> (in
  the reading \<open>eo\<close> of its errors) that is told rightly.
\<close>

definition honest :: "('e \<Rightarrow> errno option) \<Rightarrow> ('w, 'e, 'a) io \<Rightarrow> bool" where
  "honest eo m \<longleftrightarrow>
     (\<forall>s. \<exists>es. trace (snd (m s)) = trace s @ es \<and> last_errno (snd (m s)) = errno_after (last_errno s) es \<and>
        (\<forall>f e. fst (m s) = Inl f \<longrightarrow> eo f = Some e \<longrightarrow> errno_told e (last_errno s) es))"

named_theorems honest_rules \<open>one rule for each construct: the errno it tells\<close>

lemma errno_after_append [simp]: "errno_after n (es @ es') = errno_after (errno_after n es) es'"
  by (induction es arbitrary: n) simp_all

lemma errno_told_append: "errno_told e (errno_after n es) es' \<Longrightarrow> errno_told e n (es @ es')"
  by (auto simp: errno_told_def)

lemma errno_told_os: "errno_told e n (es @ [(c, Inl (OsError m))]) \<longleftrightarrow> e = m"
  by (auto simp: errno_told_def)

lemma errno_told_ok: "errno_told e n (es @ [(c, Inr a)]) \<longleftrightarrow> e = errno_after n es"
  by (auto simp: errno_told_def)

lemma honestI:
  assumes "\<And>s. \<exists>es. trace (snd (m s)) = trace s @ es \<and> last_errno (snd (m s)) = errno_after (last_errno s) es \<and>
      (\<forall>f e. fst (m s) = Inl f \<longrightarrow> eo f = Some e \<longrightarrow> errno_told e (last_errno s) es)"
  shows "honest eo m"
  unfolding honest_def using assms by blast

lemma honestE:
  assumes "honest eo m" and "m s = (r, t)"
  obtains es where "trace t = trace s @ es" and "last_errno t = errno_after (last_errno s) es"
    and "\<And>f e. r = Inl f \<Longrightarrow> eo f = Some e \<Longrightarrow> errno_told e (last_errno s) es"
  using assms unfolding honest_def by (metis fst_conv snd_conv)

lemma honest_bnd [honest_rules]:
  assumes "honest eo m" and "\<And>x. honest eo (f x)" shows "honest eo (bnd m f)"
proof (rule honestI)
  fix s
  obtain r t where m: "m s = (r, t)" by (cases "m s")
  from assms(1) m obtain es where es: "trace t = trace s @ es" "last_errno t = errno_after (last_errno s) es"
    "\<And>f e. r = Inl f \<Longrightarrow> eo f = Some e \<Longrightarrow> errno_told e (last_errno s) es" by (rule honestE) blast
  show "\<exists>es. trace (snd (bnd m f s)) = trace s @ es \<and> last_errno (snd (bnd m f s)) = errno_after (last_errno s) es \<and>
      (\<forall>g e. fst (bnd m f s) = Inl g \<longrightarrow> eo g = Some e \<longrightarrow> errno_told e (last_errno s) es)"
  proof (cases r)
    case (Inl g)
    with m es show ?thesis by (intro exI [of _ es]) (simp add: bnd_def)
  next
    case (Inr x)
    obtain r' u where f: "f x t = (r', u)" by (cases "f x t")
    from assms(2) f obtain es' where "trace u = trace t @ es'" "last_errno u = errno_after (last_errno t) es'"
      "\<And>g e. r' = Inl g \<Longrightarrow> eo g = Some e \<Longrightarrow> errno_told e (last_errno t) es'" by (rule honestE) blast
    with m f es(1,2) Inr show ?thesis
      by (intro exI [of _ "es @ es'"]) (simp add: bnd_def errno_told_append)
  qed
qed

lemma honest_simple [honest_rules]:
  "honest eo (ret x)" "honest eo (call_ignore k c)" "honest eo (call_try k c)" "honest eo get_errno"
  by (auto simp: honest_def call_ignore_def call_try_def attempt_def get_errno_def syscall_def split: prod.splits)

lemma honest_call_last [honest_rules]:
  assumes "\<And>e. eo (h e) \<in> {None, Some e}" shows "honest eo (call_last (k :: 'w kernel) c h)"
proof (rule honestI)
  fix s :: "'w os"
  obtain r w where k: "k c (world s) = (r, w)" by (cases "k c (world s)")
  show "\<exists>es. trace (snd (call_last k c h s)) = trace s @ es \<and>
      last_errno (snd (call_last k c h s)) = errno_after (last_errno s) es \<and>
      (\<forall>f e. fst (call_last k c h s) = Inl f \<longrightarrow> eo f = Some e \<longrightarrow> errno_told e (last_errno s) es)"
    using assms [of "errno_after (last_errno s) [(c, r)]"]
    by (intro exI [of _ "[(c, r)]"]) (auto simp: call_last_def syscall_def k map_err_def errno_told_def split: sum.splits)
qed

lemma honest_call_io [honest_rules]:
  assumes "\<And>e. eo (g e) \<in> {None, Some (nix_errno e)}" shows "honest eo (call_io (k :: 'w kernel) c g)"
proof (rule honestI)
  fix s :: "'w os"
  obtain r w where k: "k c (world s) = (r, w)" by (cases "k c (world s)")
  show "\<exists>es. trace (snd (call_io k c g s)) = trace s @ es \<and>
      last_errno (snd (call_io k c g s)) = errno_after (last_errno s) es \<and>
      (\<forall>f e. fst (call_io k c g s) = Inl f \<longrightarrow> eo f = Some e \<longrightarrow> errno_told e (last_errno s) es)"
  proof (cases r)
    case (Inl x)
    then show ?thesis using assms [of x]
      by (intro exI [of _ "[(c, r)]"])
        (auto simp: call_io_def syscall_def k map_err_def errno_told_def nix_errno_def split: io_error.splits)
  qed (auto simp: call_io_def syscall_def k map_err_def)
qed

lemma honest_throw_none [honest_rules]: "eo e = None \<Longrightarrow> honest eo (throw e)"
  by (simp add: honest_def)

text \<open>\<open>Errno::last()\<close> put into an error.\<close>

lemma honest_throw_errno [honest_rules]:
  assumes "\<And>n. eo (g n) \<in> {None, Some n}" shows "honest eo (bnd get_errno (\<lambda>n. throw (g n)))"
  using assms by (auto simp: honest_def bnd_def get_errno_def errno_told_def; metis option.inject option.distinct(1))

lemma honest_if [honest_rules]: "honest eo m \<Longrightarrow> honest eo n \<Longrightarrow> honest eo (if b then m else n)"
  by simp

lemma honest_unit_of [honest_rules]: "honest eo m \<Longrightarrow> honest eo (unit_of m)"
  by (simp add: unit_of_def honest_rules)

lemma honest_for_each [honest_rules]:
  assumes "\<And>x. x \<in> set xs \<Longrightarrow> honest eo (f x)" shows "honest eo (for_each xs f)"
  using assms unfolding for_each_def by (induction xs) (simp_all add: honest_rules)

lemma honest_attempt [honest_rules]: "honest (\<lambda>_. None) m \<Longrightarrow> honest eo (attempt m)"
  unfolding honest_def attempt_def by (metis (no_types, lifting) fst_conv prod.case_eq_if snd_conv sum.distinct(1))

lemma honest_map_error [honest_rules]:
  assumes "honest (\<lambda>e. eo (g e)) m" shows "honest eo (map_error g m)"
proof (rule honestI)
  fix s
  obtain r t where m: "m s = (r, t)" by (cases "m s")
  from assms m obtain es where "trace t = trace s @ es" "last_errno t = errno_after (last_errno s) es"
    "\<And>f e. r = Inl f \<Longrightarrow> eo (g f) = Some e \<Longrightarrow> errno_told e (last_errno s) es"
    by (rule honestE) blast
  with m show "\<exists>es. trace (snd (map_error g m s)) = trace s @ es \<and>
      last_errno (snd (map_error g m s)) = errno_after (last_errno s) es \<and>
      (\<forall>f e. fst (map_error g m s) = Inl f \<longrightarrow> eo f = Some e \<longrightarrow> errno_told e (last_errno s) es)"
    by (intro exI [of _ es]) (auto simp: map_error_def map_err_def split: sum.splits)
qed

lemma honest_or_errno [honest_rules]:
  assumes "honest (\<lambda>_. None) m" and "\<And>n. eo (g n) \<in> {None, Some n}" shows "honest eo (or_errno g m)"
proof (rule honestI)
  fix s
  obtain r t where m: "m s = (r, t)" by (cases "m s")
  from assms(1) m obtain es where "trace t = trace s @ es" "last_errno t = errno_after (last_errno s) es"
    by (rule honestE) blast
  with m assms(2) [of "last_errno t"] show "\<exists>es. trace (snd (or_errno g m s)) = trace s @ es \<and>
      last_errno (snd (or_errno g m s)) = errno_after (last_errno s) es \<and>
      (\<forall>f e. fst (or_errno g m s) = Inl f \<longrightarrow> eo f = Some e \<longrightarrow> errno_told e (last_errno s) es)"
    by (intro exI [of _ es]) (auto simp: or_errno_def map_err_def errno_told_def split: sum.splits)
qed

end
