(* ===== verification/MountSetup.thy ===== *)
theory MountSetup
  imports Steps
begin

text \<open>
  \<^verbatim>\<open>src/mount.rs\<close>: the child's mount namespace, from the private propagation of the old root to the
  removal of \<open>.put_old\<close>. \<open>mount_steps\<close> is the specification: the events of a setup that
  succeeds, in order. \<open>stage_call\<close> says which calls each stage of the error pipe stands for. The
  calls whose result the code only looks at or ignores are \<open>looked_at\<close>.
\<close>

section \<open>Definitions\<close>

record mount_context =
  mc_workspace_path :: path
  mc_extra_ro_mounts :: "(path \<times> path) list"
  mc_new_root :: path

type_synonym child_failure = "child_stage \<times> errno"

definition sandbox_target :: "path \<Rightarrow> path \<Rightarrow> path" where
  "sandbox_target new_root sandbox_path = path_join new_root (trim_start_slash (to_string_lossy sandbox_path))"

definition rootfs_dirs :: "path list" where
  "rootfs_dirs = [''/proc'', ''/tmp'', ''/dev'', ''/dev/pts'', ''/dev/shm'', ''/workspace'']"

definition device_names :: "string list" where
  "device_names = [''null'', ''zero'', ''urandom'']"

definition proc_masks :: "path list" where
  "proc_masks = [''proc/sys'', ''proc/sysrq-trigger'', ''proc/irq'', ''proc/acpi'']"

definition do_mount :: "'w kernel \<Rightarrow> child_stage \<Rightarrow> path option \<Rightarrow> path \<Rightarrow> string option \<Rightarrow> ms_flag set \<Rightarrow>
    string option \<Rightarrow> ('w, child_failure, unit) io" where
  "do_mount k stage src target fstype flags data =
     unit_of (call_nix k (Mnt (Mount src target fstype flags data)) (\<lambda>e. (stage, e)))"

definition mask_source :: "path \<Rightarrow> reply \<Rightarrow> path" where
  "mask_source new_root is_dir =
     (case is_dir of
        Inr _ \<Rightarrow> path_join new_root ''tmp/.proc-mask-dir''
      | Inl _ \<Rightarrow> path_join new_root ''tmp/.proc-mask-file'')"

definition mask_proc_path :: "'w kernel \<Rightarrow> path \<Rightarrow> path \<Rightarrow> ('w, child_failure, unit) io" where
  "mask_proc_path k new_root rel =
     (let target = path_join new_root rel
      in bnd (call_try k (Fs (Exists target))) (\<lambda>r.
         case r of
           Inl _ \<Rightarrow> ret ()
         | Inr _ \<Rightarrow>
             bnd (call_try k (Fs (IsDir target))) (\<lambda>d.
             do_mount k MaskProc (Some (mask_source new_root d)) target None {MS_BIND, MS_RDONLY} None)))"

definition mask_proc_paths :: "'w kernel \<Rightarrow> path \<Rightarrow> ('w, child_failure, unit) io" where
  "mask_proc_paths k new_root =
     bnd (call_last k (Fs (CreateDirAll (path_join new_root ''tmp/.proc-mask-dir''))) (\<lambda>e. (MaskProc, e))) (\<lambda>_.
     bnd (call_last k (Fs (CreateFile (path_join new_root ''tmp/.proc-mask-file''))) (\<lambda>e. (MaskProc, e))) (\<lambda>_.
     for_each proc_masks (mask_proc_path k new_root)))"

definition bind_device :: "'w kernel \<Rightarrow> path \<Rightarrow> string \<Rightarrow> ('w, child_failure, unit) io" where
  "bind_device k new_root dev =
     (let host_dev = path_join ''/dev'' dev;
          guest_dev = path_join (path_join new_root ''dev'') dev
      in bnd (call_last k (Fs (CreateFile guest_dev)) (\<lambda>e. (MountDevpts, e))) (\<lambda>_.
         do_mount k MountDevpts (Some host_dev) guest_dev None {MS_BIND} None))"

definition bind_extra :: "'w kernel \<Rightarrow> path \<Rightarrow> path \<times> path \<Rightarrow> ('w, child_failure, unit) io" where
  "bind_extra k new_root m =
     (let target = sandbox_target new_root (snd m)
      in bnd (do_mount k MountWorkspace (Some (fst m)) target None {MS_BIND, MS_REC} None) (\<lambda>_.
         do_mount k MountWorkspace (Some (fst m)) target None {MS_BIND, MS_REMOUNT, MS_RDONLY, MS_REC} None))"

text \<open>\<open>pivot\<close> is step 6 of \<open>setup\<close>, from the creation of \<open>.put_old\<close> to its removal.\<close>

definition pivot :: "'w kernel \<Rightarrow> path \<Rightarrow> ('w, child_failure, unit) io" where
  "pivot k new_root =
     (let put_old = path_join new_root ''.put_old''
      in bnd (call_last k (Fs (CreateDir put_old 0x1FF)) (\<lambda>e. (PivotRootStage, e))) (\<lambda>_.
         bnd (call_nix k (Mnt (PivotRoot new_root put_old)) (\<lambda>e. (PivotRootStage, e))) (\<lambda>_.
         bnd (call_nix k (Mnt (Chdir ''/'')) (\<lambda>e. (PivotRootStage, e))) (\<lambda>_.
         bnd (case strip_root new_root of
                Some rel \<Rightarrow> call_ignore k (Fs (RemoveDir (path_join ''/.put_old'' rel)))
              | None \<Rightarrow> ret ()) (\<lambda>_.
         bnd (call_nix k (Mnt (UmountDetach ''/.put_old'')) (\<lambda>e. (PivotRootStage, e))) (\<lambda>_.
         unit_of (call_last k (Fs (RemoveDir ''/.put_old'')) (\<lambda>e. (PivotRootStage, e)))))))))"

definition mount_setup :: "'w kernel \<Rightarrow> mount_context \<Rightarrow> ('w, child_failure, unit) io" where
  "mount_setup k ctx =
     (let root = mc_new_root ctx in
      bnd (do_mount k BreakPropagation None ''/'' None {MS_REC, MS_PRIVATE} None) (\<lambda>_.
      bnd (do_mount k BuildRootfs (Some ''tmpfs'') root (Some ''tmpfs'') {MS_NOSUID, MS_NODEV}
             (Some ''mode=0755'')) (\<lambda>_.
      bnd (for_each rootfs_dirs (\<lambda>dir.
             unit_of (call_last k (Fs (CreateDir (path_join root (trim_start_slash dir)) 0x1ED))
               (\<lambda>e. (BuildRootfs, e))))) (\<lambda>_.
      bnd (for_each (mc_extra_ro_mounts ctx) (\<lambda>(_, sandbox_path).
             unit_of (call_last k (Fs (CreateDirAll (sandbox_target root sandbox_path)))
               (\<lambda>e. (BuildRootfs, e))))) (\<lambda>_.
      bnd (do_mount k MountDevpts (Some ''devpts'') (path_join root ''dev/pts'') (Some ''devpts'')
             {MS_NOSUID, MS_NOEXEC} (Some ''newinstance,ptmxmode=0666,mode=0620'')) (\<lambda>_.
      bnd (for_each device_names (bind_device k root)) (\<lambda>_.
      bnd (do_mount k MountWorkspace (Some (mc_workspace_path ctx)) (path_join root ''workspace'') None
             {MS_BIND, MS_REC} None) (\<lambda>_.
      bnd (for_each (mc_extra_ro_mounts ctx) (bind_extra k root)) (\<lambda>_.
      bnd (do_mount k MountProc (Some ''proc'') (path_join root ''proc'') (Some ''proc'')
             {MS_NOSUID, MS_NODEV, MS_NOEXEC} None) (\<lambda>_.
      bnd (mask_proc_paths k root) (\<lambda>_.
      pivot k root)))))))))))"

text \<open>
  \<open>clock_gettime\<close> answers the nanoseconds since boot; the code reads them as seconds and
  nanoseconds. On failure the zeroed \<open>timespec\<close> stays.
\<close>

definition scratch_root_path :: "'w kernel \<Rightarrow> ('w, 'e, path) io" where
  "scratch_root_path k =
     bnd (call_try k (Env ClockMonotonicRaw)) (\<lambda>r.
     let n = (case r of Inl _ \<Rightarrow> 0 | Inr a \<Rightarrow> ans_num a);
         tv_sec = n div 1000000000;
         tv_nsec = n mod 1000000000;
         ns = (word_of_int tv_sec :: u64) * 1000000000 + word_of_int tv_nsec
     in ret (''/tmp/sandbox-root-'' @ dec (unat ns)))"

definition create_scratch_root :: "'w kernel \<Rightarrow> ('w, sandbox_error, path) io" where
  "create_scratch_root k =
     bnd (scratch_root_path k) (\<lambda>path.
     bnd (call_io k (Fs (CreateDir path 0x1C0)) CgroupCreateFailed) (\<lambda>_.
     ret path))"

subsection \<open>Specifications\<close>

fun looked_at :: "call \<Rightarrow> bool" where
  "looked_at (Fs (Exists _)) \<longleftrightarrow> True"
| "looked_at (Fs (IsDir _)) \<longleftrightarrow> True"
| "looked_at (Fs (RemoveDir p)) \<longleftrightarrow> p \<noteq> ''/.put_old''"
| "looked_at (Env ClockMonotonicRaw) \<longleftrightarrow> True"
| "looked_at (Proc (Prctl op _)) \<longleftrightarrow> op = PR_SET_PDEATHSIG \<or> op = PR_SET_DUMPABLE"
| "looked_at (Fd (CloseFd _)) \<longleftrightarrow> True"
| "looked_at _ \<longleftrightarrow> False"

definition bind_calls :: "path \<Rightarrow> path \<Rightarrow> ms_flag set \<Rightarrow> call" where
  "bind_calls src target flags = Mnt (Mount (Some src) target None flags None)"

definition extra_calls :: "path \<Rightarrow> path \<times> path \<Rightarrow> call list" where
  "extra_calls root m =
     [bind_calls (fst m) (sandbox_target root (snd m)) {MS_BIND, MS_REC},
      bind_calls (fst m) (sandbox_target root (snd m)) {MS_BIND, MS_REMOUNT, MS_RDONLY, MS_REC}]"

definition device_calls :: "path \<Rightarrow> string \<Rightarrow> call list" where
  "device_calls root dev =
     [Fs (CreateFile (path_join (path_join root ''dev'') dev)),
      bind_calls (path_join ''/dev'' dev) (path_join (path_join root ''dev'') dev) {MS_BIND}]"

definition mount_calls :: "mount_context \<Rightarrow> call list" where
  "mount_calls ctx =
     (let root = mc_new_root ctx in
      [Mnt (Mount None ''/'' None {MS_REC, MS_PRIVATE} None),
       Mnt (Mount (Some ''tmpfs'') root (Some ''tmpfs'') {MS_NOSUID, MS_NODEV} (Some ''mode=0755''))] @
      map (\<lambda>d. Fs (CreateDir (path_join root (trim_start_slash d)) 0x1ED)) rootfs_dirs @
      map (\<lambda>m. Fs (CreateDirAll (sandbox_target root (snd m)))) (mc_extra_ro_mounts ctx) @
      [Mnt (Mount (Some ''devpts'') (path_join root ''dev/pts'') (Some ''devpts'') {MS_NOSUID, MS_NOEXEC}
         (Some ''newinstance,ptmxmode=0666,mode=0620''))] @
      concat (map (device_calls root) device_names) @
      [bind_calls (mc_workspace_path ctx) (path_join root ''workspace'') {MS_BIND, MS_REC}] @
      concat (map (extra_calls root) (mc_extra_ro_mounts ctx)) @
      [Mnt (Mount (Some ''proc'') (path_join root ''proc'') (Some ''proc'')
         {MS_NOSUID, MS_NODEV, MS_NOEXEC} None),
       Fs (CreateDirAll (path_join root ''tmp/.proc-mask-dir'')),
       Fs (CreateFile (path_join root ''tmp/.proc-mask-file''))])"

text \<open>A proc path is masked when it exists: by the directory if it is one, else by the file.\<close>

definition mask_events :: "path \<Rightarrow> path \<Rightarrow> event list \<Rightarrow> bool" where
  "mask_events root rel es \<longleftrightarrow>
     (\<exists>e. es = [(Fs (Exists (path_join root rel)), Inl e)]) \<or>
     (\<exists>a d b. es = [(Fs (Exists (path_join root rel)), Inr a), (Fs (IsDir (path_join root rel)), d),
        (bind_calls (mask_source root d) (path_join root rel) {MS_BIND, MS_RDONLY}, Inr b)])"

definition pivot_calls :: "path \<Rightarrow> call list" where
  "pivot_calls root =
     [Fs (CreateDir (path_join root ''.put_old'') 0x1FF),
      Mnt (PivotRoot root (path_join root ''.put_old'')),
      Mnt (Chdir ''/'')] @
     (case strip_root root of Some rel \<Rightarrow> [Fs (RemoveDir (path_join ''/.put_old'' rel))] | None \<Rightarrow> []) @
     [Mnt (UmountDetach ''/.put_old''), Fs (RemoveDir ''/.put_old'')]"

definition mount_steps :: "mount_context \<Rightarrow> event list \<Rightarrow> bool" where
  "mount_steps ctx es \<longleftrightarrow>
     (\<exists>pre masks post. es = pre @ concat masks @ post \<and>
        calls_of pre = mount_calls ctx \<and>
        list_all2 (mask_events (mc_new_root ctx)) proc_masks masks \<and>
        calls_of post = pivot_calls (mc_new_root ctx))"

fun stage_call :: "mount_context \<Rightarrow> child_stage \<Rightarrow> call \<Rightarrow> bool" where
  "stage_call ctx BreakPropagation c \<longleftrightarrow> c = Mnt (Mount None ''/'' None {MS_REC, MS_PRIVATE} None)"
| "stage_call ctx BuildRootfs c \<longleftrightarrow>
     (\<exists>p. c = Fs (CreateDir p 0x1ED) \<or> c = Fs (CreateDirAll p)) \<or>
     (\<exists>fl d. c = Mnt (Mount (Some ''tmpfs'') (mc_new_root ctx) (Some ''tmpfs'') fl d))"
| "stage_call ctx MountDevpts c \<longleftrightarrow>
     (\<exists>t fl d. c = Mnt (Mount (Some ''devpts'') t (Some ''devpts'') fl d)) \<or>
     (\<exists>dev. c \<in> set (device_calls (mc_new_root ctx) dev))"
| "stage_call ctx MountWorkspace c \<longleftrightarrow>
     (\<exists>src t fl. c = bind_calls src t fl \<and> MS_BIND \<in> fl \<and> MS_REC \<in> fl)"
| "stage_call ctx MountProc c \<longleftrightarrow> (\<exists>t fl d. c = Mnt (Mount (Some ''proc'') t (Some ''proc'') fl d))"
| "stage_call ctx MaskProc c \<longleftrightarrow>
     c = Fs (CreateDirAll (path_join (mc_new_root ctx) ''tmp/.proc-mask-dir'')) \<or>
     c = Fs (CreateFile (path_join (mc_new_root ctx) ''tmp/.proc-mask-file'')) \<or>
     (\<exists>src t. c = bind_calls src t {MS_BIND, MS_RDONLY})"
| "stage_call ctx PivotRootStage c \<longleftrightarrow> c \<in> set (pivot_calls (mc_new_root ctx))"
| "stage_call ctx _ c \<longleftrightarrow> False"

text \<open>The failed call of a stage; the errno is that call's when the operating system gave one.\<close>

definition mount_blame :: "mount_context \<Rightarrow> child_failure \<Rightarrow> event \<Rightarrow> bool" where
  "mount_blame ctx f ev \<longleftrightarrow>
     stage_call ctx (fst f) (fst ev) \<and> (\<exists>e. snd ev = Inl e \<and> (\<forall>n. e = OsError n \<longrightarrow> snd f = n))"

section \<open>Lemmas\<close>

lemma nix_errno_os [simp]: "nix_errno (OsError n) = n"
  by (simp add: nix_errno_def)

lemma ff_do_mount:
  assumes "stage_call ctx stage (Mnt (Mount src target fstype flags data))"
  shows "ff looked_at (do_mount k stage src target fstype flags data) (mount_blame ctx)
     (\<lambda>_ es. calls_of es = [Mnt (Mount src target fstype flags data)])"
  unfolding do_mount_def using assms by (intro ff_rules) (auto simp: mount_blame_def)

lemma ff_stage_last:
  assumes "stage_call ctx stage c"
  shows "ff looked_at (unit_of (call_last k c (\<lambda>e. (stage, e)))) (mount_blame ctx) (\<lambda>_ es. calls_of es = [c])"
    and "ff looked_at (call_last k c (\<lambda>e. (stage, e))) (mount_blame ctx) (\<lambda>_ es. calls_of es = [c])"
  using assms by (auto intro!: ff_rules simp: mount_blame_def)

lemma ff_stage_nix:
  assumes "stage_call ctx stage c"
  shows "ff looked_at (call_nix k c (\<lambda>e. (stage, e))) (mount_blame ctx) (\<lambda>_ es. calls_of es = [c])"
  using assms by (auto intro!: ff_rules simp: mount_blame_def)

lemma ff_for_calls:
  assumes "\<And>x. x \<in> set xs \<Longrightarrow> ff R (f x) D (\<lambda>_ es. calls_of es = L x)"
  shows "ff R (for_each xs f) D (\<lambda>_ es. calls_of es = concat (map L xs))"
proof (rule ff_weaken)
  show "ff R (for_each xs f) D (\<lambda>_ es. \<exists>ess. es = concat ess \<and> list_all2 (\<lambda>x es. calls_of es = L x) xs ess)"
    using assms by (rule ff_for_each)
next
  fix u :: unit and es
  have "list_all2 (\<lambda>x es. calls_of es = L x) xs ess \<Longrightarrow> calls_of (concat ess) = concat (map L xs)" for ess
    by (induction rule: list_all2_induct) simp_all
  then show "\<exists>ess. es = concat ess \<and> list_all2 (\<lambda>x es. calls_of es = L x) xs ess \<Longrightarrow>
      calls_of es = concat (map L xs)" by blast
qed simp

lemma ff_bind_device:
  "ff looked_at (bind_device k (mc_new_root ctx) dev) (mount_blame ctx)
     (\<lambda>_ es. calls_of es = device_calls (mc_new_root ctx) dev)"
  unfolding bind_device_def Let_def
  by (rule ff_bnd, rule ff_stage_last(2)) 
    (auto simp: device_calls_def bind_calls_def intro!: ff_weaken [OF ff_do_mount] exI [of _ dev])

lemma ff_bind_extra:
  "ff looked_at (bind_extra k (mc_new_root ctx) m) (mount_blame ctx)
     (\<lambda>_ es. calls_of es = extra_calls (mc_new_root ctx) m)"
  unfolding bind_extra_def Let_def
  by (rule ff_bnd, rule ff_do_mount)
    (auto simp: extra_calls_def bind_calls_def intro!: ff_weaken [OF ff_do_mount])

lemma ff_mask_proc_path:
  "ff looked_at (mask_proc_path k (mc_new_root ctx) rel) (mount_blame ctx)
     (\<lambda>_. mask_events (mc_new_root ctx) rel)"
  unfolding mask_proc_path_def Let_def
  by (intro ff_rules; (simp split: sum.splits)?)
    (auto simp: mask_events_def bind_calls_def do_mount_def mount_blame_def intro!: ff_rules)

lemma ff_pivot:
  "ff looked_at (pivot k (mc_new_root ctx)) (mount_blame ctx)
     (\<lambda>_ es. calls_of es = pivot_calls (mc_new_root ctx))"
proof -
  let ?root = "mc_new_root ctx"
  have neq: "path_join ''/.put_old'' (trim_start_slash ?root) \<noteq> ''/.put_old''"
    using trim_start_slash_relative by (simp add: path_join_def)
  have rel: "ff looked_at (case strip_root ?root of
        Some rel \<Rightarrow> call_ignore k (Fs (RemoveDir (path_join ''/.put_old'' rel))) | None \<Rightarrow> ret ())
      (mount_blame ctx) (\<lambda>_ es. calls_of es = (case strip_root ?root of
        Some rel \<Rightarrow> [Fs (RemoveDir (path_join ''/.put_old'' rel))] | None \<Rightarrow> []))"
    using neq by (cases "is_absolute ?root") (auto simp: strip_root_def intro!: ff_rules)
  show ?thesis
    unfolding pivot_def Let_def
    by (rule ff_bnd [OF ff_stage_last(2)], simp add: pivot_calls_def,
        (rule ff_bnd [OF ff_stage_nix], simp add: pivot_calls_def)+,
        rule ff_bnd [OF rel], rule ff_bnd [OF ff_stage_nix], simp add: pivot_calls_def,
        rule ff_weaken [OF ff_stage_last(1)])
      (auto simp: pivot_calls_def)
qed

lemma ff_rootfs_dirs:
  "ff looked_at (for_each rootfs_dirs (\<lambda>dir.
       unit_of (call_last k (Fs (CreateDir (path_join root (trim_start_slash dir)) 0x1ED)) (\<lambda>e. (BuildRootfs, e)))))
     (mount_blame ctx)
     (\<lambda>_ es. calls_of es = concat (map (\<lambda>d. [Fs (CreateDir (path_join root (trim_start_slash d)) 0x1ED)]) rootfs_dirs))"
  by (intro ff_for_calls ff_stage_last(1)) simp

lemma ff_extra_dirs:
  "ff looked_at (for_each xs (\<lambda>(_, p). unit_of (call_last k (Fs (CreateDirAll (sandbox_target root p))) (\<lambda>e. (BuildRootfs, e)))))
     (mount_blame ctx) (\<lambda>_ es. calls_of es = concat (map (\<lambda>m. [Fs (CreateDirAll (sandbox_target root (snd m)))]) xs))"
  by (intro ff_for_calls) (auto intro!: ff_stage_last(1) split: prod.splits)

definition masked :: "path \<Rightarrow> event list \<Rightarrow> bool" where
  "masked root es \<longleftrightarrow> (\<exists>pre masks. es = pre @ concat masks \<and>
     calls_of pre = [Fs (CreateDirAll (path_join root ''tmp/.proc-mask-dir'')),
       Fs (CreateFile (path_join root ''tmp/.proc-mask-file''))] \<and>
     list_all2 (mask_events root) proc_masks masks)"

lemma maskedI:
  "calls_of es = [Fs (CreateDirAll (path_join root ''tmp/.proc-mask-dir''))] \<Longrightarrow>
   calls_of es' = [Fs (CreateFile (path_join root ''tmp/.proc-mask-file''))] \<Longrightarrow>
   \<exists>ess. es'' = concat ess \<and> list_all2 (mask_events root) proc_masks ess \<Longrightarrow> masked root (es @ es' @ es'')"
  unfolding masked_def by (elim exE conjE, intro exI [of _ "es @ es'"]) auto

lemma ff_mask_proc_paths:
  "ff looked_at (mask_proc_paths k (mc_new_root ctx)) (mount_blame ctx) (\<lambda>_. masked (mc_new_root ctx))"
  unfolding mask_proc_paths_def
  by ((rule ff_bnd [OF ff_stage_last(2)], simp)+, rule ff_weaken [OF ff_for_each [OF ff_mask_proc_path]])
    (simp_all add: maskedI)

lemma concat_map_single: "concat (map (\<lambda>x. [f x]) xs) = map f xs"
  by (induction xs) simp_all

lemma mount_stepsI:
  assumes "calls_of pre @ [Fs (CreateDirAll (path_join (mc_new_root ctx) ''tmp/.proc-mask-dir'')),
      Fs (CreateFile (path_join (mc_new_root ctx) ''tmp/.proc-mask-file''))] = mount_calls ctx"
    and "masked (mc_new_root ctx) es" and "calls_of post = pivot_calls (mc_new_root ctx)"
  shows "mount_steps ctx (pre @ es @ post)"
proof -
  from assms(2) obtain es' masks where es: "es = es' @ concat masks"
    and es': "calls_of es' = [Fs (CreateDirAll (path_join (mc_new_root ctx) ''tmp/.proc-mask-dir'')),
       Fs (CreateFile (path_join (mc_new_root ctx) ''tmp/.proc-mask-file''))]"
    and masks: "list_all2 (mask_events (mc_new_root ctx)) proc_masks masks"
    unfolding masked_def by (elim exE conjE) (rule that)
  have "pre @ es @ post = (pre @ es') @ concat masks @ post" by (simp add: es)
  moreover have "calls_of (pre @ es') = mount_calls ctx" using assms(1) by (simp add: es')
  ultimately show ?thesis unfolding mount_steps_def using masks assms(3) by blast
qed

lemma ff_mount_setup:
  "ff looked_at (mount_setup k ctx) (mount_blame ctx) (\<lambda>_. mount_steps ctx)"
  unfolding mount_setup_def Let_def
  by (rule ff_bnd [OF ff_do_mount], simp, rule ff_bnd [OF ff_do_mount], simp,
      rule ff_bnd [OF ff_rootfs_dirs], rule ff_bnd [OF ff_extra_dirs],
      rule ff_bnd [OF ff_do_mount], simp, rule ff_bnd [OF ff_for_calls [OF ff_bind_device]],
      rule ff_bnd [OF ff_do_mount], simp add: bind_calls_def,
      rule ff_bnd [OF ff_for_calls [OF ff_bind_extra]],
      rule ff_bnd [OF ff_do_mount], simp, rule ff_bnd [OF ff_mask_proc_paths],
      rule ff_weaken [OF ff_pivot], assumption)
    (rule mount_stepsI [of "_ @ _ @ _ @ _ @ _ @ _ @ _ @ _ @ _", unfolded append_assoc];
      simp add: mount_calls_def concat_map_single bind_calls_def Let_def)

definition example_mounts :: mount_context where
  "example_mounts = \<lparr>mc_workspace_path = ''/w'', mc_extra_ro_mounts = [(''/u'', ''/v'')], mc_new_root = ''/r''\<rparr>"

lemmas mount_run = mount_setup_def do_mount_def bind_device_def bind_extra_def mask_proc_paths_def
  mask_proc_path_def mask_source_def pivot_def rootfs_dirs_def device_names_def proc_masks_def
  sandbox_target_def path_join_def strip_root_def trim_start_slash_def example_mounts_def Let_def utf8_tail_def

lemma wrapping_ns:
  "(word_of_int (n div 1000000000) :: u64) * 1000000000 + word_of_int (n mod 1000000000) = word_of_int n"
proof -
  have "(word_of_int (n div 1000000000) :: u64) * 1000000000 + word_of_int (n mod 1000000000) =
      word_of_int (n div 1000000000 * 1000000000 + n mod 1000000000)"
    by (simp only: wi_hom_add [symmetric] wi_hom_mult [symmetric]) simp
  then show ?thesis by simp
qed

section \<open>Properties\<close>

text \<open>
  C19. A mount setup that succeeds has made exactly the mounts of the specification, in order: the old
  root made private first, a tmpfs root with the six directories, devpts, the three devices, the
  workspace, each extra mount bound and then remounted read-only, proc and its masks, then
  pivot_root, chdir, the removal of the scratch directory, the detachment of the old root and its
  removal last; every call succeeded but those whose result is only looked at.
\<close>

theorem mount_setup_steps:
  assumes "mount_setup k ctx s = (Inr (), t)"
  shows "\<exists>es. trace t = trace s @ es \<and> ok_but looked_at es \<and> mount_steps ctx es"
  using emits_Inr [OF ff_mount_setup [unfolded ff_def] assms] .

theorem mount_setup_steps_witness:
  "\<exists>t. mount_setup obliging example_mounts fresh_os = (Inr (), t) \<and> length (trace t) = 40 \<and>
    mount_steps example_mounts (trace t)"
proof -
  let ?run = "mount_setup obliging example_mounts fresh_os"
  have r: "?run = (Inr (), snd ?run)" and l: "length (trace (snd ?run)) = 40"
    by (simp_all add: run_defs mount_run)
  from mount_setup_steps [OF r] have "mount_steps example_mounts (trace (snd ?run))"
    by (auto simp: fresh_os_def)
  with r l show ?thesis by (intro exI [of _ "snd ?run"] conjI)
qed

text \<open>
  C37. A failed mount setup stops at the failed call and reports its stage: every earlier call
  succeeded but those only looked at, the last call failed, the stage is one that makes such a call,
  and the errno is the operating system's when it gave one (\<open>create_dir_all\<close> is one call here, with the
  errno the standard library leaves).
\<close>

theorem mount_failure_stage:
  assumes "mount_setup k ctx s = (Inl (stage, n), t)"
  shows "\<exists>pre c e. trace t = trace s @ pre @ [(c, Inl e)] \<and> ok_but looked_at pre \<and>
    stage_call ctx stage c \<and> (\<forall>m. e = OsError m \<longrightarrow> n = m)"
proof -
  obtain es where t: "trace t = trace s @ es" and "blamed looked_at (mount_blame ctx) (stage, n) es"
    using emits_Inl [OF ff_mount_setup [unfolded ff_def] assms] by blast
  then obtain pre ev where "es = pre @ [ev]" "ok_but looked_at pre" "mount_blame ctx (stage, n) ev"
    unfolding blamed_def by blast
  with t show ?thesis by (cases ev) (auto simp: mount_blame_def)
qed

theorem mount_failure_stage_witness:
  "\<exists>t c e. mount_setup (failing (\<lambda>c. c = Mnt (PivotRoot ''/r'' ''/r/.put_old'')) (OsError EPERM)) example_mounts fresh_os =
      (Inl (PivotRootStage, EPERM), t) \<and> last (trace t) = (c, Inl e) \<and> stage_call example_mounts PivotRootStage c"
proof -
  let ?run = "mount_setup (failing (\<lambda>c. c = Mnt (PivotRoot ''/r'' ''/r/.put_old'')) (OsError EPERM)) example_mounts fresh_os"
  have r: "?run = (Inl (PivotRootStage, EPERM), snd ?run)"
    by (simp add: run_defs mount_run)
  obtain pre c e where "trace (snd ?run) = trace fresh_os @ pre @ [(c, Inl e)]"
    and "stage_call example_mounts PivotRootStage c"
    using mount_failure_stage [OF r] by blast
  with r show ?thesis by (intro exI [of _ "snd ?run"] exI conjI) simp_all
qed

text \<open>
  The scratch root is named by the clock's nanoseconds modulo 2^64: the wrapping sum of seconds
  and nanoseconds loses nothing, so two children get the same name only at the same time.
\<close>

theorem scratch_root_named_by_clock:
  fixes k k' :: "'w kernel"
  assumes "k (Env ClockMonotonicRaw) (world s) = (Inr a, w)" and "k' (Env ClockMonotonicRaw) (world s') = (Inr a', w')"
  shows "fst (scratch_root_path k s) = (fst (scratch_root_path k' s') :: 'e + path) \<longleftrightarrow>
    ans_num a mod 2 ^ 64 = ans_num a' mod 2 ^ 64"
proof -
  have run: "fst (scratch_root_path k s) = (Inr (''/tmp/sandbox-root-'' @ dec (unat (word_of_int n :: u64))) :: 'e + path)"
    if "k (Env ClockMonotonicRaw) (world s) = (Inr a, w)" "n = ans_num a" for k :: "'w kernel" and s a w n
    using that by (simp add: scratch_root_path_def run_defs wrapping_ns Let_def)
  have "dec (unat (word_of_int m :: u64)) = dec (unat (word_of_int n :: u64)) \<longleftrightarrow>
      m mod 2 ^ 64 = n mod 2 ^ 64" for m n
    by (simp add: word_unat_eq_iff [symmetric] word_of_int_eq_iff take_bit_eq_mod)
  then show ?thesis by (simp only: run [of k s a w, OF assms(1) refl] run [of k' s' a' w', OF assms(2) refl]) simp
qed

theorem scratch_root_named_by_clock_witness:
  "fst (scratch_root_path (scripted (\<lambda>_. Inr (done_ans\<lparr>ans_num := 7\<rparr>))) fresh_os) \<noteq>
   (fst (scratch_root_path obliging fresh_os) :: sandbox_error + path)"
proof -
  have "scripted (\<lambda>_. Inr (done_ans\<lparr>ans_num := 7\<rparr>)) (Env ClockMonotonicRaw) (world fresh_os) =
      (Inr (done_ans\<lparr>ans_num := 7\<rparr>), ())"
    and "obliging (Env ClockMonotonicRaw) (world fresh_os) = (Inr done_ans, ())"
    by (simp_all add: scripted_def failing_def)
  from scratch_root_named_by_clock [where 'e = sandbox_error and k = "scripted (\<lambda>_. Inr (done_ans\<lparr>ans_num := 7\<rparr>))" and
      k' = obliging and s = fresh_os and s' = fresh_os, OF this] show ?thesis by simp
qed

end
