(* ===== verification/Landlock.thy ===== *)
theory Landlock
  imports Steps
begin

text \<open>
  \<^verbatim>\<open>src/landlock.rs\<close>: the Landlock ruleset of the child. The landlock crate's builder is three kinds of
  call, each failing with an error of its own: creating a ruleset that handles a set of rights
  (\<open>handle_access\<close> and \<open>create\<close> under \<open>HardRequirement\<close>), adding the rights beneath an opened path,
  and \<open>restrict_self\<close>. A \<open>BitFlags<AccessFs>\<close> is a set of rights.
\<close>

section \<open>Definitions\<close>

definition rw_file_rights :: "access_fs set" where
  "rw_file_rights = {ReadFile, WriteFile, ReadDir, MakeReg, RemoveFile, Truncate}"

definition ro_dir_rights :: "access_fs set" where
  "ro_dir_rights = {ReadFile, ReadDir}"

definition dev_rw_rights :: "access_fs set" where
  "dev_rw_rights = {ReadFile, WriteFile}"

definition handled_rights :: "access_fs set" where
  "handled_rights = {ReadFile, WriteFile, ReadDir, MakeReg, RemoveFile, Truncate, MakeDir, MakeSym}"

lemmas rights_defs = rw_file_rights_def ro_dir_rights_def dev_rw_rights_def handled_rights_def

definition probe_abi_version :: "'w kernel \<Rightarrow> ('w, sandbox_error, u32) io" where
  "probe_abi_version k =
     bnd (call_try k (Lsm LandlockVersion)) (\<lambda>r.
       case r of
         Inl _ \<Rightarrow> throw (LandlockUnsupported 0)
       | Inr a \<Rightarrow> ret (word_of_int (ans_num a)))"

definition add_path_rule :: "'w kernel \<Rightarrow> path \<Rightarrow> access_fs set \<Rightarrow> ('w, sandbox_error, unit) io" where
  "add_path_rule k path rights =
     bnd (call_last k (Lsm (PathFdOpen path)) LandlockRulesetFailed) (\<lambda>fd.
     unit_of (call_last k (Lsm (LandlockAddRule (ans_num fd) rights)) LandlockRulesetFailed))"

definition apply_ruleset ::
  "'w kernel \<Rightarrow> path \<Rightarrow> (path \<times> path) list \<Rightarrow> ('w, sandbox_error, unit) io" where
  "apply_ruleset k workspace extra_ro =
     bnd (probe_abi_version k) (\<lambda>abi_version.
     if abi_version < 2 then throw (LandlockUnsupported abi_version)
     else
       bnd (call_last k (Lsm (LandlockCreate handled_rights)) LandlockRulesetFailed) (\<lambda>_.
       bnd (add_path_rule k workspace rw_file_rights) (\<lambda>_.
       bnd (add_path_rule k ''/tmp'' rw_file_rights) (\<lambda>_.
       bnd (add_path_rule k ''/dev/null'' dev_rw_rights) (\<lambda>_.
       bnd (add_path_rule k ''/dev/urandom'' {ReadFile}) (\<lambda>_.
       bnd (add_path_rule k ''/dev/pts'' dev_rw_rights) (\<lambda>_.
       bnd (add_path_rule k ''/proc/self'' ro_dir_rights) (\<lambda>_.
       bnd (for_each extra_ro (\<lambda>(_, sandbox_path). add_path_rule k sandbox_path ro_dir_rights)) (\<lambda>_.
       unit_of (call_last k (Lsm LandlockRestrictSelf) LandlockRulesetFailed))))))))))"

subsection \<open>Specifications\<close>

text \<open>The rules, in order; a rule is two calls, the second with the descriptor the first answered.\<close>

definition landlock_rules :: "path \<Rightarrow> (path \<times> path) list \<Rightarrow> (path \<times> access_fs set) list" where
  "landlock_rules workspace extra_ro =
     [(workspace, rw_file_rights), (''/tmp'', rw_file_rights), (''/dev/null'', dev_rw_rights),
      (''/dev/urandom'', {ReadFile}), (''/dev/pts'', dev_rw_rights), (''/proc/self'', ro_dir_rights)] @
     map (\<lambda>m. (snd m, ro_dir_rights)) extra_ro"

definition rule_events :: "path \<times> access_fs set \<Rightarrow> event list \<Rightarrow> bool" where
  "rule_events rule es \<longleftrightarrow>
     (\<exists>a b. es = [(Lsm (PathFdOpen (fst rule)), Inr a), (Lsm (LandlockAddRule (ans_num a) (snd rule)), Inr b)])"

definition restricted :: "path \<Rightarrow> (path \<times> path) list \<Rightarrow> event list \<Rightarrow> bool" where
  "restricted workspace extra_ro es \<longleftrightarrow>
     (\<exists>a b c ess. es = (Lsm LandlockVersion, Inr a) # (Lsm (LandlockCreate handled_rights), Inr b) #
        concat ess @ [(Lsm LandlockRestrictSelf, Inr c)] \<and>
        (2 :: u32) \<le> word_of_int (ans_num a) \<and>
        list_all2 rule_events (landlock_rules workspace extra_ro) ess)"

fun landlock_blame :: "sandbox_error \<Rightarrow> event \<Rightarrow> bool" where
  "landlock_blame (LandlockUnsupported v) ev \<longleftrightarrow>
     fst ev = Lsm LandlockVersion \<and>
     (case snd ev of Inl _ \<Rightarrow> v = 0 | Inr a \<Rightarrow> v = word_of_int (ans_num a) \<and> v < 2)"
| "landlock_blame (LandlockRulesetFailed n) ev \<longleftrightarrow>
     (\<exists>c e. ev = (Lsm c, Inl e) \<and> (\<forall>m. e = OsError m \<longrightarrow> n = m))"
| "landlock_blame _ _ \<longleftrightarrow> False"

section \<open>Lemmas\<close>

lemma ff_add_path_rule:
  "ff R (add_path_rule k p rights) landlock_blame (\<lambda>_. rule_events (p, rights))"
  unfolding add_path_rule_def by (intro ff_rules) (auto simp: rule_events_def)

lemma ff_extra_rules:
  "ff R (for_each extra (\<lambda>(_, p). add_path_rule k p ro_dir_rights)) landlock_blame
     (\<lambda>_ es. \<exists>ess. es = concat ess \<and>
        list_all2 rule_events (map (\<lambda>m. (snd m, ro_dir_rights)) extra) ess)"
  by (rule ff_weaken [OF ff_for_each [where L = "\<lambda>m. rule_events (snd m, ro_dir_rights)"]])
    (auto simp: list.rel_map ff_add_path_rule split: prod.splits)

lemma rules_split:
  assumes "rule_events (ws, rw_file_rights) es1" "rule_events (''/tmp'', rw_file_rights) es2"
    "rule_events (''/dev/null'', dev_rw_rights) es3" "rule_events (''/dev/urandom'', {ReadFile}) es4"
    "rule_events (''/dev/pts'', dev_rw_rights) es5" "rule_events (''/proc/self'', ro_dir_rights) es6"
    "list_all2 rule_events (map (\<lambda>m. (snd m, ro_dir_rights)) extra) ess"
  shows "\<exists>ess'. es1 @ es2 @ es3 @ es4 @ es5 @ es6 @ concat ess = concat ess' \<and>
    list_all2 rule_events (landlock_rules ws extra) ess'"
  using assms
  by (intro exI [of _ "es1 # es2 # es3 # es4 # es5 # es6 # ess"]) (simp add: landlock_rules_def)

lemma ff_rules_part:
  "ff R (bnd (add_path_rule k ws rw_file_rights) (\<lambda>_.
       bnd (add_path_rule k ''/tmp'' rw_file_rights) (\<lambda>_.
       bnd (add_path_rule k ''/dev/null'' dev_rw_rights) (\<lambda>_.
       bnd (add_path_rule k ''/dev/urandom'' {ReadFile}) (\<lambda>_.
       bnd (add_path_rule k ''/dev/pts'' dev_rw_rights) (\<lambda>_.
       bnd (add_path_rule k ''/proc/self'' ro_dir_rights) (\<lambda>_.
       bnd (for_each extra (\<lambda>(_, p). add_path_rule k p ro_dir_rights)) (\<lambda>_.
       unit_of (call_last k (Lsm LandlockRestrictSelf) LandlockRulesetFailed)))))))))
     landlock_blame
     (\<lambda>_ es. \<exists>c ess. es = concat ess @ [(Lsm LandlockRestrictSelf, Inr c)] \<and>
        list_all2 rule_events (landlock_rules ws extra) ess)"
  by (rule ff_bnd [OF ff_add_path_rule] ff_bnd [OF ff_extra_rules] ff_unit_of ff_call_last)+
    (auto intro: rules_split)

lemma ff_check_abi:
  assumes "\<And>a. (2 :: u32) \<le> word_of_int (ans_num a) \<Longrightarrow>
    ff R m landlock_blame (\<lambda>x es. Q x ((Lsm LandlockVersion, Inr a) # es))"
  shows "ff R (bnd (probe_abi_version k)
      (\<lambda>v. if v < 2 then throw (LandlockUnsupported v) else m)) landlock_blame Q"
  unfolding ff_def probe_abi_version_def bnd_assoc
proof (rule emits_bnd, rule emits_call_try)
  fix r :: reply
  show "emits (bnd (case r of Inl _ \<Rightarrow> throw (LandlockUnsupported 0) | Inr a \<Rightarrow> ret (word_of_int (ans_num a)))
          (\<lambda>v. if v < 2 then throw (LandlockUnsupported v) else m))
      (\<lambda>e es. blamed R landlock_blame e ([(Lsm LandlockVersion, r)] @ es))
      (\<lambda>x es. ok_but R ([(Lsm LandlockVersion, r)] @ es) \<and> Q x ([(Lsm LandlockVersion, r)] @ es))"
  proof (cases r)
    case (Inl e)
    then show ?thesis by (auto simp: emits_def bnd_def intro: blamed_now)
  next
    case (Inr a)
    show ?thesis
    proof (cases "(word_of_int (ans_num a) :: u32) < 2")
      case True
      with Inr show ?thesis by (auto simp: emits_def intro: blamed_now)
    next
      case False
      then have "emits m (blamed R landlock_blame)
          (\<lambda>x es. ok_but R es \<and> Q x ((Lsm LandlockVersion, Inr a) # es))"
        using assms [of a] by (simp add: ff_def)
      then have "emits m (\<lambda>e es. blamed R landlock_blame e ((Lsm LandlockVersion, Inr a) # es))
          (\<lambda>x es. ok_but R es \<and> Q x ((Lsm LandlockVersion, Inr a) # es))"
        by (rule emits_weaken) (auto intro: blamed_Cons)
      with Inr False show ?thesis by simp
    qed
  qed
qed

lemma ff_apply_ruleset:
  "ff R (apply_ruleset k ws extra) landlock_blame (\<lambda>_. restricted ws extra)"
  unfolding apply_ruleset_def
proof (rule ff_check_abi)
  fix a :: answer assume "(2 :: u32) \<le> word_of_int (ans_num a)"
  then show "ff R (bnd (call_last k (Lsm (LandlockCreate handled_rights)) LandlockRulesetFailed) (\<lambda>_.
       bnd (add_path_rule k ws rw_file_rights) (\<lambda>_.
       bnd (add_path_rule k ''/tmp'' rw_file_rights) (\<lambda>_.
       bnd (add_path_rule k ''/dev/null'' dev_rw_rights) (\<lambda>_.
       bnd (add_path_rule k ''/dev/urandom'' {ReadFile}) (\<lambda>_.
       bnd (add_path_rule k ''/dev/pts'' dev_rw_rights) (\<lambda>_.
       bnd (add_path_rule k ''/proc/self'' ro_dir_rights) (\<lambda>_.
       bnd (for_each extra (\<lambda>(_, p). add_path_rule k p ro_dir_rights)) (\<lambda>_.
       unit_of (call_last k (Lsm LandlockRestrictSelf) LandlockRulesetFailed)))))))))) landlock_blame
       (\<lambda>_ es. restricted ws extra ((Lsm LandlockVersion, Inr a) # es))"
    by - (rule ff_bind, intro ff_call_last;
      auto intro!: ff_weaken [OF ff_rules_part] simp: restricted_def)
qed

lemma rules_confined:
  "list_all (\<lambda>(p, rights). rights \<subseteq> handled_rights \<and>
     (rights \<subseteq> {ReadFile, ReadDir} \<or> p \<in> {workspace, ''/tmp'', ''/dev/null'', ''/dev/pts''}))
     (landlock_rules workspace extra)"
  by (auto simp: landlock_rules_def rights_defs list_all_iff)

section \<open>Properties\<close>

text \<open>
  C35. The child is restricted only by the whole ruleset: when \<open>apply_ruleset\<close> succeeds the kernel's
  Landlock ABI is at least 2 and the calls, all successful, create a ruleset that handles the eight
  rights, then for the workspace, /tmp, the devices, /proc/self and each extra mount, in this order,
  open the path and add its rights beneath exactly that descriptor, and at last restrict the
  process. No rule grants a right that is not handled, and only the workspace, /tmp,
  /dev/null and /dev/pts get more than reading.
\<close>

theorem ruleset_applied:
  assumes "apply_ruleset k workspace extra_ro s = (Inr (), t)"
  shows "\<exists>es. trace t = trace s @ es \<and> all_ok es \<and> restricted workspace extra_ro es \<and>
    list_all (\<lambda>(p, rights). rights \<subseteq> handled_rights \<and>
      (rights \<subseteq> {ReadFile, ReadDir} \<or> p \<in> {workspace, ''/tmp'', ''/dev/null'', ''/dev/pts''}))
      (landlock_rules workspace extra_ro)"
  using emits_Inr [OF ff_apply_ruleset [where R = "\<lambda>_. False", unfolded ff_def] assms] rules_confined
  by (auto simp: ok_but_def all_ok_def)

theorem ruleset_applied_witness:
  "\<exists>t. apply_ruleset (scripted (\<lambda>c. Inr (done_ans\<lparr>ans_num := 3\<rparr>))) ''/workspace'' [(''/usr'', ''/usr'')] fresh_os =
      (Inr (), t) \<and> length (trace t) = 17 \<and> restricted ''/workspace'' [(''/usr'', ''/usr'')] (trace t)"
proof -
  let ?run = "apply_ruleset (scripted (\<lambda>c. Inr (done_ans\<lparr>ans_num := 3\<rparr>))) ''/workspace'' [(''/usr'', ''/usr'')] fresh_os"
  have r: "?run = (Inr (), snd ?run)" and l: "length (trace (snd ?run)) = 17"
    by (simp_all add: run_defs apply_ruleset_def probe_abi_version_def add_path_rule_def)
  from ruleset_applied [OF r] have "restricted ''/workspace'' [(''/usr'', ''/usr'')] (trace (snd ?run))"
    by (auto simp: fresh_os_def)
  with r l show ?thesis by (intro exI [of _ "snd ?run"] conjI)
qed

text \<open>
  C36. A failure is never mistaken for a restriction: every call before the last succeeded, the last
  is the one at fault, it is never a successful restriction, and the error says which: the version
  answered, below 2, with no other call made, or the errno of the failed ruleset operation.
\<close>

theorem ruleset_failure:
  assumes "apply_ruleset k workspace extra_ro s = (Inl e, t)"
  shows "\<exists>pre ev. trace t = trace s @ pre @ [ev] \<and> all_ok pre \<and> landlock_blame e ev \<and>
    \<not> (fst ev = Lsm LandlockRestrictSelf \<and> succeeded ev)"
proof -
  have "blamed (\<lambda>_. False) landlock_blame e es \<Longrightarrow> \<exists>pre ev. es = pre @ [ev] \<and> all_ok pre \<and>
      landlock_blame e ev \<and> \<not> (fst ev = Lsm LandlockRestrictSelf \<and> succeeded ev)" for es
    by (cases e) (auto simp: blamed_def ok_but_def all_ok_def)
  with emits_Inl [OF ff_apply_ruleset [where R = "\<lambda>_. False", unfolded ff_def] assms] show ?thesis
    by blast
qed

theorem ruleset_failure_witness:
  "\<exists>t. apply_ruleset obliging ''/workspace'' [] fresh_os = (Inl (LandlockUnsupported 0), t) \<and>
    (\<exists>ev. trace t = [ev] \<and> landlock_blame (LandlockUnsupported 0) ev)"
proof -
  let ?run = "apply_ruleset obliging ''/workspace'' [] fresh_os"
  have r: "?run = (Inl (LandlockUnsupported 0), snd ?run)" and l: "length (trace (snd ?run)) = 1"
    by (simp_all add: run_defs apply_ruleset_def probe_abi_version_def)
  from ruleset_failure [OF r] l have "\<exists>ev. trace (snd ?run) = [ev] \<and> landlock_blame (LandlockUnsupported 0) ev"
    by (auto simp: fresh_os_def)
  with r show ?thesis by (intro exI [of _ "snd ?run"] conjI)
qed

end
