(* ===== verification/Seccomp.thy ===== *)
theory Seccomp
  imports Bpf Abi RustStd
begin

text \<open>
  The filter of \<^verbatim>\<open>src/seccomp.rs\<close>: the instructions \<open>load_filter\<close> pushes, block by block,
  the kill list and the allow list. The system call numbers (\<open>libc::SYS_<name>\<close>) are the
  parameter \<open>sys\<close>, a function of the name; \<open>x86_64\<close> is the Linux x86-64 numbering, used
  where a theorem asks for one. \<open>policy\<close> is what the header comment of the file promises,
  on numbers, and \<open>named_policy\<close> the same on names.
\<close>

section \<open>Definitions\<close>

subsection \<open>System call lists\<close>

definition KILL_SYSCALLS :: "string list" where
  "KILL_SYSCALLS =
     [''ptrace'', ''process_vm_readv'', ''process_vm_writev'', ''kexec_load'', ''kexec_file_load'']"

definition syscall_nr :: "(string \<Rightarrow> u32) \<Rightarrow> string \<Rightarrow> u32 option" where
  "syscall_nr sys name =
     (if name = ''ptrace'' then Some (sys ''ptrace'')
      else if name = ''process_vm_readv'' then Some (sys ''process_vm_readv'')
      else if name = ''process_vm_writev'' then Some (sys ''process_vm_writev'')
      else if name = ''kexec_load'' then Some (sys ''kexec_load'')
      else if name = ''kexec_file_load'' then Some (sys ''kexec_file_load'')
      else None)"

definition allowed_process :: "string list" where
  "allowed_process =
     [''execve'', ''execveat'', ''exit'', ''exit_group'', ''getpid'',
      ''getppid'', ''gettid'', ''set_tid_address'', ''arch_prctl'']"

definition allowed_memory :: "string list" where
  "allowed_memory =
     [''brk'', ''mmap'', ''munmap'', ''mprotect'', ''mremap'',
      ''madvise'', ''msync'', ''mincore'', ''mlock'', ''munlock'']"

definition allowed_file_io :: "string list" where
  "allowed_file_io =
     [''read'', ''write'', ''readv'', ''writev'', ''pread64'',
      ''pwrite64'', ''open'', ''openat'', ''creat'', ''close'',
      ''close_range'', ''lseek'']"

definition allowed_metadata :: "string list" where
  "allowed_metadata =
     [''stat'', ''fstat'', ''lstat'', ''newfstatat'', ''statx'',
      ''access'', ''faccessat'', ''faccessat2'', ''readlink'', ''readlinkat'',
      ''statfs'', ''fstatfs'']"

definition allowed_descriptors :: "string list" where
  "allowed_descriptors =
     [''dup'', ''dup2'', ''dup3'', ''pipe'', ''pipe2'',
      ''fcntl'', ''ioctl'']"

definition allowed_filesystem :: "string list" where
  "allowed_filesystem =
     [''getdents'', ''getdents64'', ''chdir'', ''fchdir'', ''getcwd'',
      ''mkdir'', ''mkdirat'', ''rmdir'', ''rename'', ''renameat'',
      ''renameat2'', ''unlink'', ''unlinkat'', ''symlink'', ''symlinkat'',
      ''link'', ''linkat'', ''chmod'', ''fchmod'', ''fchmodat'',
      ''chown'', ''fchown'', ''lchown'', ''fchownat'', ''utime'',
      ''utimes'', ''futimesat'', ''utimensat'', ''truncate'', ''ftruncate'',
      ''sendfile'', ''fallocate'', ''flock'', ''fsync'', ''fdatasync'']"

definition allowed_signals :: "string list" where
  "allowed_signals =
     [''rt_sigaction'', ''rt_sigprocmask'', ''rt_sigreturn'', ''rt_sigtimedwait'', ''rt_sigpending'',
      ''sigaltstack'', ''kill'', ''tgkill'', ''tkill'']"

definition allowed_threading :: "string list" where
  "allowed_threading =
     [''clone'', ''futex'', ''futex_waitv'', ''get_robust_list'', ''set_robust_list'']"

definition allowed_time :: "string list" where
  "allowed_time =
     [''nanosleep'', ''clock_nanosleep'', ''clock_gettime'', ''clock_getres'', ''gettimeofday'',
      ''time'', ''times'', ''setitimer'', ''getitimer'', ''alarm'']"

definition allowed_multiplexing :: "string list" where
  "allowed_multiplexing =
     [''select'', ''pselect6'', ''poll'', ''ppoll'', ''epoll_create'',
      ''epoll_create1'', ''epoll_ctl'', ''epoll_wait'', ''epoll_pwait'', ''epoll_pwait2'']"

definition allowed_wait :: "string list" where
  "allowed_wait =
     [''wait4'', ''waitid'']"

definition allowed_networking :: "string list" where
  "allowed_networking =
     [''socket'', ''bind'', ''connect'', ''listen'', ''accept'',
      ''accept4'', ''sendto'', ''recvfrom'', ''sendmsg'', ''recvmsg'',
      ''sendmmsg'', ''recvmmsg'', ''shutdown'', ''getsockname'', ''getpeername'',
      ''getsockopt'', ''setsockopt'', ''socketpair'']"

definition allowed_identity :: "string list" where
  "allowed_identity =
     [''getuid'', ''getgid'', ''geteuid'', ''getegid'', ''getgroups'',
      ''getpgrp'', ''getpgid'', ''getsid'']"

definition allowed_limits :: "string list" where
  "allowed_limits =
     [''getrlimit'', ''prlimit64'', ''setrlimit'', ''getrusage'']"

definition allowed_scheduling :: "string list" where
  "allowed_scheduling =
     [''sched_yield'', ''sched_getaffinity'', ''sched_getscheduler'', ''sched_get_priority_max'', ''sched_get_priority_min'',
      ''getpriority'']"

definition allowed_misc :: "string list" where
  "allowed_misc =
     [''membarrier'', ''rseq'', ''uname'', ''getrandom'', ''memfd_create'',
      ''eventfd'', ''eventfd2'', ''timerfd_create'', ''timerfd_settime'', ''timerfd_gettime'',
      ''inotify_init1'', ''inotify_add_watch'', ''inotify_rm_watch'', ''sysinfo'', ''prctl'',
      ''seccomp'']"

definition ALLOWED_SYSCALLS :: "string list" where
  "ALLOWED_SYSCALLS =
     allowed_process @ allowed_memory @ allowed_file_io @ allowed_metadata @
     allowed_descriptors @ allowed_filesystem @ allowed_signals @ allowed_threading @
     allowed_time @ allowed_multiplexing @ allowed_wait @ allowed_networking @
     allowed_identity @ allowed_limits @ allowed_scheduling @ allowed_misc"

lemmas allowed_defs = ALLOWED_SYSCALLS_def allowed_process_def allowed_memory_def
  allowed_file_io_def allowed_metadata_def allowed_descriptors_def allowed_filesystem_def
  allowed_signals_def allowed_threading_def allowed_time_def allowed_multiplexing_def
  allowed_wait_def allowed_networking_def allowed_identity_def allowed_limits_def
  allowed_scheduling_def allowed_misc_def

definition ALLOWED_SYSCALL_NRS :: "(string \<Rightarrow> u32) \<Rightarrow> u32 list" where
  "ALLOWED_SYSCALL_NRS sys = map sys ALLOWED_SYSCALLS"

subsection \<open>The filter\<close>

text \<open>The opcodes are \<open>BPF_LD | BPF_W | BPF_ABS\<close> (\<open>op_ld\<close>) and so on.\<close>

definition insns_arch :: "sock_filter list" where
  "insns_arch =
     [stmt op_ld OFF_ARCH,
      jump op_jeq AUDIT_ARCH_X86_64 1 0,
      stmt op_ret SECCOMP_RET_KILL_PROCESS,
      stmt op_ld OFF_NR]"

definition insns_kill :: "(string \<Rightarrow> u32) \<Rightarrow> sock_filter list" where
  "insns_kill sys =
     concat (map (\<lambda>name.
       case syscall_nr sys name of
         Some nr \<Rightarrow> [jump op_jeq nr 0 1, stmt op_ret SECCOMP_RET_KILL_PROCESS]
       | None \<Rightarrow> []) KILL_SYSCALLS)"

definition insns_socket :: "(string \<Rightarrow> u32) \<Rightarrow> sock_filter list" where
  "insns_socket sys =
     [jump op_jeq (sys ''socket'') 0 4,
      stmt op_ld OFF_ARG0,
      jump op_jeq AF_UNIX 1 0,
      stmt op_ret (SECCOMP_RET_ERRNO OR (EACCES AND 0xFFFF)),
      stmt op_ld OFF_NR]"

definition FILTER_CLONE_NEWUSER :: u32 where "FILTER_CLONE_NEWUSER = 0x10000000"

definition insns_clone :: "(string \<Rightarrow> u32) \<Rightarrow> sock_filter list" where
  "insns_clone sys =
     [jump op_jeq (sys ''clone'') 0 4,
      stmt op_ld OFF_ARG0,
      jump op_jset FILTER_CLONE_NEWUSER 0 1,
      stmt op_ret (SECCOMP_RET_ERRNO OR (EPERM AND 0xFFFF)),
      stmt op_ld OFF_NR]"

definition insns_clone3 :: "(string \<Rightarrow> u32) \<Rightarrow> sock_filter list" where
  "insns_clone3 sys =
     [jump op_jeq (sys ''clone3'') 0 1,
      stmt op_ret (SECCOMP_RET_ERRNO OR (ENOSYS AND 0xFFFF))]"

definition insns_allow :: "(string \<Rightarrow> u32) \<Rightarrow> sock_filter list" where
  "insns_allow sys =
     concat (map (\<lambda>nr. [jump op_jeq nr 0 1, stmt op_ret SECCOMP_RET_ALLOW])
       (ALLOWED_SYSCALL_NRS sys))"

definition insns_default :: "sock_filter list" where
  "insns_default = [stmt op_ret (SECCOMP_RET_ERRNO OR (EPERM AND 0xFFFF))]"

definition filter_insns :: "(string \<Rightarrow> u32) \<Rightarrow> sock_filter list" where
  "filter_insns sys =
     insns_arch @ insns_kill sys @ insns_socket sys @ insns_clone sys @ insns_clone3 sys @
     insns_allow sys @ insns_default"

definition filter_prog :: "(string \<Rightarrow> u32) \<Rightarrow> sock_fprog" where
  "filter_prog sys =
     (let insns = filter_insns sys
      in \<lparr>fp_len = word_of_nat (length insns), fp_filter = insns\<rparr>)"

subsection \<open>The policy\<close>

datatype verdict = Kill | Deny errno | Allow

definition ret_of :: "verdict \<Rightarrow> u32" where
  "ret_of v =
     (case v of
        Kill \<Rightarrow> SECCOMP_RET_KILL_PROCESS
      | Deny e \<Rightarrow> SECCOMP_RET_ERRNO OR (e AND 0xFFFF)
      | Allow \<Rightarrow> SECCOMP_RET_ALLOW)"

definition policy :: "(string \<Rightarrow> u32) \<Rightarrow> seccomp_data \<Rightarrow> verdict" where
  "policy sys d =
     (if sd_arch d \<noteq> AUDIT_ARCH_X86_64 then Kill
      else if sd_nr d \<in> sys ` set KILL_SYSCALLS then Kill
      else if sd_nr d = sys ''socket'' \<and> arg0_low d \<noteq> AF_UNIX then Deny EACCES
      else if sd_nr d = sys ''clone'' \<and> arg0_low d AND FILTER_CLONE_NEWUSER \<noteq> 0 then Deny EPERM
      else if sd_nr d = sys ''clone3'' then Deny ENOSYS
      else if sd_nr d \<in> sys ` set ALLOWED_SYSCALLS then Allow
      else Deny EPERM)"

definition named_policy :: "string \<Rightarrow> u32 \<Rightarrow> verdict" where
  "named_policy name arg0 =
     (if name \<in> set KILL_SYSCALLS then Kill
      else if name = ''clone3'' then Deny ENOSYS
      else if name \<notin> set ALLOWED_SYSCALLS then Deny EPERM
      else if name = ''socket'' \<and> arg0 \<noteq> AF_UNIX then Deny EACCES
      else if name = ''clone'' \<and> arg0 AND FILTER_CLONE_NEWUSER \<noteq> 0 then Deny EPERM
      else Allow)"

definition filter_names :: "string set" where
  "filter_names = set KILL_SYSCALLS \<union> set ALLOWED_SYSCALLS \<union> {''clone3''}"

text \<open>Numbers of the names above, and of some more, on Linux x86-64.\<close>

definition OTHER_SYSCALLS :: "string list" where
  "OTHER_SYSCALLS =
     [''unshare'', ''setns'', ''mount'', ''umount2'', ''pivot_root'', ''chroot'', ''bpf'',
      ''init_module'', ''finit_module'', ''delete_module'', ''open_by_handle_at'',
      ''userfaultfd'', ''keyctl'', ''perf_event_open'', ''io_uring_setup'', ''setuid'',
      ''setgid'', ''capset'', ''reboot'', ''swapon'', ''mknod'']"

definition x86_64_names :: "string list" where
  "x86_64_names = KILL_SYSCALLS @ [''clone3''] @ OTHER_SYSCALLS @ ALLOWED_SYSCALLS"

definition x86_64_numbers :: "nat list" where
  "x86_64_numbers =
     [101, 310, 311, 246, 320, 435, 272, 308, 165, 166, 155, 161, 321, 175, 313, 176, 304, 323,
      250, 298, 425, 105, 106, 126, 169, 167, 133, 59, 322, 60, 231, 39, 110, 186, 218, 158, 12,
      9, 11, 10, 25, 28, 26, 27, 149, 150, 0, 1, 19, 20, 17, 18, 2, 257, 85, 3, 436, 8, 4, 5, 6,
      262, 332, 21, 269, 439, 89, 267, 137, 138, 32, 33, 292, 22, 293, 72, 16, 78, 217, 80, 81,
      79, 83, 258, 84, 82, 264, 316, 87, 263, 88, 266, 86, 265, 90, 91, 268, 92, 93, 94, 260,
      132, 235, 261, 280, 76, 77, 40, 285, 73, 74, 75, 13, 14, 15, 128, 127, 131, 62, 234, 200,
      56, 202, 449, 274, 273, 35, 230, 228, 229, 96, 201, 100, 38, 36, 37, 23, 270, 7, 271, 213,
      291, 233, 232, 281, 441, 61, 247, 41, 49, 42, 50, 43, 288, 44, 45, 46, 47, 307, 299, 48,
      51, 52, 55, 54, 53, 102, 104, 107, 108, 115, 111, 121, 124, 97, 302, 160, 98, 24, 204, 145,
      146, 147, 140, 324, 334, 63, 318, 319, 284, 290, 283, 286, 287, 294, 254, 255, 99, 157,
      317]"

definition x86_64 :: "string \<Rightarrow> u32" where
  "x86_64 name =
     (case map_of (zip x86_64_names x86_64_numbers) name of
        Some nr \<Rightarrow> word_of_nat nr
      | None \<Rightarrow> 0xFFFF)"

section \<open>The lists\<close>

lemma kill_nrs: "insns_kill sys =
    concat (map (\<lambda>nr. [jump op_jeq nr 0 1, stmt op_ret SECCOMP_RET_KILL_PROCESS])
      (map sys KILL_SYSCALLS))"
  by (simp add: insns_kill_def KILL_SYSCALLS_def syscall_nr_def)

lemma length_ALLOWED: "length ALLOWED_SYSCALLS = 173"
  by (simp add: allowed_defs)

lemma kill_not_allowed: "set KILL_SYSCALLS \<inter> set ALLOWED_SYSCALLS = {}"
  by (simp add: allowed_defs KILL_SYSCALLS_def)

lemma clone3_not_allowed: "''clone3'' \<notin> set ALLOWED_SYSCALLS"
  by (simp add: allowed_defs)

lemma other_not_allowed: "set OTHER_SYSCALLS \<inter> set ALLOWED_SYSCALLS = {}"
  by (simp add: allowed_defs OTHER_SYSCALLS_def)

lemma other_not_kill: "set OTHER_SYSCALLS \<inter> set KILL_SYSCALLS = {}"
  by (simp add: KILL_SYSCALLS_def OTHER_SYSCALLS_def)

lemma allowed_members: "''socket'' \<in> set ALLOWED_SYSCALLS" "''clone'' \<in> set ALLOWED_SYSCALLS"
  by (simp_all add: allowed_defs)

lemma filter_names_socket_clone: "''socket'' \<in> filter_names" "''clone'' \<in> filter_names"
  "''clone3'' \<in> filter_names"
  by (simp_all add: filter_names_def allowed_members)

lemma socket_clone_not_kill: "''socket'' \<notin> set KILL_SYSCALLS" "''clone'' \<notin> set KILL_SYSCALLS"
  "''clone3'' \<notin> set KILL_SYSCALLS"
  by (simp_all add: KILL_SYSCALLS_def)

section \<open>The filter, block by block\<close>

text \<open>
  Each block is run with the system call number in the accumulator and hands it on to the next
  block, unless it decides.
\<close>

context bpf_kernel begin

lemma run_arch:
  "run (insns_arch @ is) a d =
     (if sd_arch d = AUDIT_ARCH_X86_64 then run is (sd_nr d) d else Some (ret_of Kill))"
  by (simp add: insns_arch_def run_ld [OF sd_word_arch] run_jeq run_ret run_ld [OF sd_word_nr]
      ret_of_def)

lemma run_kill:
  "run (insns_kill sys @ is) nr d =
     (if nr \<in> sys ` set KILL_SYSCALLS then Some (ret_of Kill) else run is nr d)"
  unfolding kill_nrs run_guard_ret_list by (simp add: ret_of_def)

lemma run_socket:
  "wf_data d \<Longrightarrow> nr = sd_nr d \<Longrightarrow>
   run (insns_socket sys @ is) nr d =
     (if nr = sys ''socket'' \<and> arg0_low d \<noteq> AF_UNIX then Some (ret_of (Deny EACCES))
      else run is nr d)"
  by (simp add: insns_socket_def run_jeq run_ld [OF sd_word_arg0] run_ret
      run_ld [OF sd_word_nr] ret_of_def)

lemma run_clone:
  "wf_data d \<Longrightarrow> nr = sd_nr d \<Longrightarrow>
   run (insns_clone sys @ is) nr d =
     (if nr = sys ''clone'' \<and> arg0_low d AND FILTER_CLONE_NEWUSER \<noteq> 0
      then Some (ret_of (Deny EPERM)) else run is nr d)"
  by (simp add: insns_clone_def run_jeq run_jset run_ld [OF sd_word_arg0] run_ret
      run_ld [OF sd_word_nr] ret_of_def)

lemma run_clone3:
  "run (insns_clone3 sys @ is) nr d =
     (if nr = sys ''clone3'' then Some (ret_of (Deny ENOSYS)) else run is nr d)"
  by (simp add: insns_clone3_def run_guard_ret ret_of_def)

lemma run_allow:
  "run (insns_allow sys @ is) nr d =
     (if nr \<in> sys ` set ALLOWED_SYSCALLS then Some (ret_of Allow) else run is nr d)"
  unfolding insns_allow_def ALLOWED_SYSCALL_NRS_def run_guard_ret_list by (simp add: ret_of_def)

lemma run_default: "run insns_default nr d = Some (ret_of (Deny EPERM))"
  by (simp add: insns_default_def run_ret ret_of_def)

lemma run_filter:
  assumes "wf_data d"
  shows "run (filter_insns sys) a d = Some (ret_of (policy sys d))"
  unfolding filter_insns_def policy_def run_arch run_kill run_socket [OF assms refl]
    run_clone [OF assms refl] run_clone3 run_allow run_default
  by (simp only: if_distrib [of Some] if_distrib [of ret_of] if_not_P not_not split: if_split) simp

end

section \<open>The policy on names\<close>

lemma policy_named:
  assumes inj: "inj_on sys (insert name filter_names)"
    and d: "sd_arch d = AUDIT_ARCH_X86_64" "sd_nr d = sys name"
  shows "policy sys d = named_policy name (arg0_low d)"
proof -
  have eq: "sys name = sys n \<longleftrightarrow> name = n" if "n \<in> filter_names" for n
    using inj that by (auto simp: inj_on_def)
  have im: "sys name \<in> sys ` S \<longleftrightarrow> name \<in> S" if "S \<subseteq> filter_names" for S
    using eq that by blast
  have sub: "set KILL_SYSCALLS \<subseteq> filter_names" "set ALLOWED_SYSCALLS \<subseteq> filter_names"
    by (auto simp: filter_names_def)
  show ?thesis
    using clone3_not_allowed allowed_members socket_clone_not_kill
    unfolding policy_def named_policy_def d im [OF sub(1)] im [OF sub(2)]
      eq [OF filter_names_socket_clone(1)] eq [OF filter_names_socket_clone(2)]
      eq [OF filter_names_socket_clone(3)]
    by auto
qed

lemma x86_64_inj: "inj_on x86_64 (set x86_64_names)"
proof (rule inj_onI)
  let ?t = "zip x86_64_names x86_64_numbers"
  have len: "length x86_64_names = length x86_64_numbers"
    by (simp add: x86_64_names_def x86_64_numbers_def KILL_SYSCALLS_def OTHER_SYSCALLS_def
        allowed_defs)
  have dist: "distinct (map snd ?t)" using len by (simp add: x86_64_numbers_def)
  have small: "\<forall>v \<in> set x86_64_numbers. v < 2 ^ 32" by (simp add: x86_64_numbers_def)
  fix m n assume m: "m \<in> set x86_64_names" and n: "n \<in> set x86_64_names"
    and eq: "x86_64 m = x86_64 n"
  have "fst ` set ?t = set x86_64_names" using len by (simp flip: set_map)
  with m n obtain i j where i: "map_of ?t m = Some i" and j: "map_of ?t n = Some j"
    by (metis map_of_eq_None_iff not_None_eq)
  have ij: "i \<in> set x86_64_numbers" "j \<in> set x86_64_numbers"
    using map_of_SomeD [OF i] map_of_SomeD [OF j] by (auto dest: set_zip_rightD)
  have "(word_of_nat i :: u32) = word_of_nat j" using eq i j by (simp add: x86_64_def)
  then have "unat (word_of_nat i :: u32) = unat (word_of_nat j :: u32)" by simp
  then have "i = j" using ij small by (simp add: unat_of_nat)
  with dist map_of_SomeD [OF i] map_of_SomeD [OF j] show "m = n"
    by (metis distinct_map inj_onD prod.inject snd_conv)
qed

lemma filter_names_x86_64: "filter_names \<union> set OTHER_SYSCALLS \<subseteq> set x86_64_names"
  unfolding filter_names_def x86_64_names_def set_append list.set by blast

lemma x86_64_inj_filter:
  "name \<in> filter_names \<union> set OTHER_SYSCALLS \<Longrightarrow> inj_on x86_64 (insert name filter_names)"
  by (rule inj_on_subset [OF x86_64_inj]) (use filter_names_x86_64 in blast)

lemma x86_64_small: "x86_64 name < 0x40000000"
proof (cases "map_of (zip x86_64_names x86_64_numbers) name")
  case None
  then show ?thesis by (simp add: x86_64_def)
next
  case (Some v)
  then have "v \<in> set x86_64_numbers" by (auto dest: map_of_SomeD set_zip_rightD)
  moreover have "\<forall>v \<in> set x86_64_numbers. v < 1000" by (simp add: x86_64_numbers_def)
  ultimately have "v < 1000" by blast
  with Some show ?thesis by (simp add: x86_64_def word_less_nat_alt unat_of_nat)
qed

lemma length_filter_insns: "length (filter_insns sys) = 373"
proof -
  have "length (concat (map (\<lambda>nr. [jump op_jeq nr 0 1, stmt op_ret v]) nrs)) = 2 * length nrs"
    for v :: u32 and nrs :: "u32 list"
    by (induction nrs) simp_all
  then have "length (insns_allow sys) = 2 * 173" and "length (insns_kill sys) = 2 * 5"
    unfolding insns_allow_def kill_nrs ALLOWED_SYSCALL_NRS_def
    by (simp_all only: length_map length_ALLOWED) (simp add: KILL_SYSCALLS_def)
  then show ?thesis
    by (simp add: filter_insns_def insns_arch_def insns_socket_def insns_clone_def
        insns_clone3_def insns_default_def)
qed

lemma filter_insns_ok: "bpf_insns_ok (filter_insns sys)"
proof -
  have "frag_ok (insns_allow sys)" "frag_ok (insns_kill sys)"
    unfolding insns_allow_def kill_nrs by (rule frag_ok_guards)+
  moreover have "frag_ok insns_arch" "frag_ok (insns_socket sys)" "frag_ok (insns_clone sys)"
    "frag_ok (insns_clone3 sys)" "bpf_insns_ok insns_default"
    by (simp_all add: insns_arch_def insns_socket_def insns_clone_def insns_clone3_def
        insns_default_def stmt_def jump_def op_defs OFF_ARCH_def OFF_NR_def OFF_ARG0_def)
  ultimately show ?thesis
    unfolding filter_insns_def by (intro frag_ok_insns)
qed

section \<open>Properties\<close>

definition example_data :: "u32 \<Rightarrow> u64 \<Rightarrow> seccomp_data" where
  "example_data nr arg0 =
     \<lparr>sd_nr = nr, sd_arch = AUDIT_ARCH_X86_64, sd_ip = 0x401000, sd_args = [arg0, 0, 0, 0, 0, 0]\<rparr>"

lemma example_data_simps [simp]:
  "wf_data (example_data nr x)" "sd_arch (example_data nr x) = AUDIT_ARCH_X86_64"
  "sd_nr (example_data nr x) = nr" "arg0_low (example_data nr x) = ucast x"
  by (simp_all add: example_data_def wf_data_def arg0_low_def)

text \<open>
  C2. The filter brink loads decides every system call as the policy says, on any machine that
  runs classic BPF as documented, whatever the numbering of system calls and the start value
  of the accumulator: kill on a foreign architecture or a call of the kill list, the argument
  checks of \<open>socket\<close> and \<open>clone\<close>, ENOSYS for \<open>clone3\<close>, allow the calls
  of the allow list, and EPERM for everything else. In particular it always returns an action.
\<close>

theorem filter_implements_policy:
  assumes "bpf_kernel run" and "wf_data d"
  shows "run (fp_filter (filter_prog sys)) a d = Some (ret_of (policy sys d))"
  using bpf_kernel.run_filter [OF assms] by (simp add: filter_prog_def Let_def)

theorem filter_implements_policy_witness:
  "bpf_exec (fp_filter (filter_prog x86_64)) 0 (example_data 101 0) =
     Some (ret_of (policy x86_64 (example_data 101 0)))"
  by (rule filter_implements_policy [OF machine.bpf_kernel_axioms]) simp

text \<open>
  C32. The kernel accepts the program: its 373 instructions are within the limit of 4096 and all
  known, every load is an aligned word of \<open>seccomp_data\<close>, no jump leaves the program, the last
  instruction returns, and the \<open>as u16\<close> of its length loses nothing.
\<close>

theorem filter_accepted:
  "bpf_valid (fp_filter (filter_prog sys)) \<and>
   unat (fp_len (filter_prog sys)) = length (fp_filter (filter_prog sys)) \<and>
   length (fp_filter (filter_prog sys)) = 5 * 2 + 173 * 2 + 17"
  by (simp add: filter_prog_def Let_def bpf_valid_def length_filter_insns filter_insns_ok)

text \<open>
  C28. Under a numbering that keeps the named calls apart, what happens to a call is decided by
  its name and the low half of its first argument: kill list before allow list, sockets of the
  UNIX domain only, no \<open>clone\<close> with CLONE_NEWUSER, \<open>clone3\<close> reported as missing.
\<close>

theorem filter_by_name:
  assumes "bpf_kernel run" and "wf_data d" and "inj_on sys (insert name filter_names)"
    and "sd_arch d = AUDIT_ARCH_X86_64" and "sd_nr d = sys name"
  shows "run (fp_filter (filter_prog sys)) a d = Some (ret_of (named_policy name (arg0_low d)))"
  using bpf_kernel.run_filter [OF assms(1,2)] policy_named [OF assms(3-5)]
  by (simp add: filter_prog_def Let_def)

theorem filter_by_name_witness:
  "bpf_exec (fp_filter (filter_prog x86_64)) 0 (example_data (x86_64 ''socket'') 2) =
     Some (ret_of (named_policy ''socket'' 2))"
  using filter_by_name [OF machine.bpf_kernel_axioms, of "example_data (x86_64 ''socket'') 2"
      x86_64 "''socket''" 0] x86_64_inj_filter [of "''socket''"]
  by (simp add: filter_names_socket_clone)

text \<open>
  C13. No way around the user namespace check: \<open>unshare\<close>, \<open>setns\<close>, the mount calls and the
  other privileged calls listed are refused with EPERM, \<open>clone3\<close> with ENOSYS, and a
  \<open>clone\<close> whose flags have CLONE_NEWUSER with EPERM, whatever the other flags.
\<close>

theorem no_escape_calls:
  assumes "bpf_kernel run" and "wf_data d" and "inj_on sys (insert name filter_names)"
    and "sd_arch d = AUDIT_ARCH_X86_64" and "sd_nr d = sys name"
    and "name \<in> set OTHER_SYSCALLS \<or> name = ''clone3'' \<or>
      name = ''clone'' \<and> arg0_low d AND FILTER_CLONE_NEWUSER \<noteq> 0"
  shows "run (fp_filter (filter_prog sys)) a d =
    Some (ret_of (Deny (if name = ''clone3'' then ENOSYS else EPERM)))"
proof -
  have "named_policy name (arg0_low d) = Deny (if name = ''clone3'' then ENOSYS else EPERM)"
    using assms(6) other_not_allowed other_not_kill socket_clone_not_kill allowed_members
    by (auto simp: named_policy_def)
  with filter_by_name [OF assms(1-5)] show ?thesis by simp
qed

theorem no_escape_calls_witness:
  "bpf_exec (fp_filter (filter_prog x86_64)) 0 (example_data (x86_64 ''clone'') 0x10000011) =
     Some (ret_of (Deny EPERM))"
  using no_escape_calls [OF machine.bpf_kernel_axioms,
      of "example_data (x86_64 ''clone'') 0x10000011" x86_64 "''clone''" 0]
    x86_64_inj_filter [of "''clone''"]
  by (simp add: filter_names_socket_clone FILTER_CLONE_NEWUSER_def)

text \<open>
  Default deny: a number that belongs to none of the named calls, such as one with the x32
  bit set, is refused with EPERM.
\<close>

theorem unknown_numbers_denied:
  assumes "bpf_kernel run" and "wf_data d" and "sd_arch d = AUDIT_ARCH_X86_64"
    and "sd_nr d \<notin> sys ` filter_names"
  shows "run (fp_filter (filter_prog sys)) a d = Some (ret_of (Deny EPERM))"
proof -
  have "sd_nr d \<noteq> sys n" if "n \<in> filter_names" for n using assms(4) that by blast
  with assms(3,4) have "policy sys d = Deny EPERM"
    by (simp add: policy_def filter_names_socket_clone image_Un filter_names_def [symmetric])
      (auto simp: filter_names_def)
  with bpf_kernel.run_filter [OF assms(1,2)] show ?thesis
    by (simp add: filter_prog_def Let_def)
qed

theorem unknown_numbers_denied_witness:
  "bpf_exec (fp_filter (filter_prog x86_64)) 0 (example_data 0x40000001 0) =
     Some (ret_of (Deny EPERM))"
proof (rule unknown_numbers_denied [OF machine.bpf_kernel_axioms])
  show "sd_nr (example_data 0x40000001 0) \<notin> x86_64 ` filter_names"
  proof
    assume "sd_nr (example_data 0x40000001 0) \<in> x86_64 ` filter_names"
    then obtain name where "x86_64 name = 0x40000001" by auto
    with x86_64_small [of name] show False by simp
  qed
qed simp_all

end
