(* ===== verification/Codec.thy ===== *)
theory Codec
  imports RustStd
begin

text \<open>
  The interface between an encoder and a decoder that reads at an offset of a buffer: the
  decoder returns the value and the offset behind it, or nothing. A codec promises that the
  decoder reads back what the encoder wrote, whatever follows, and that whatever the decoder
  accepts is an encoding. The consequences (encodings are prefix-free, a truncated encoding is
  rejected, repetition of a codec is a codec) are proved once for every codec.
\<close>

definition cursor :: "u8 list \<Rightarrow> nat \<Rightarrow> u8 list \<Rightarrow> bool" where
  "cursor buf p rest \<longleftrightarrow> length buf < 2 ^ 64 \<and> p \<le> length buf \<and> drop p buf = rest"

lemma cursor_start: "length buf < 2 ^ 64 \<Longrightarrow> cursor buf 0 buf"
  by (simp add: cursor_def)

lemma cursor_length: "cursor buf p rest \<Longrightarrow> p + length rest = length buf"
  by (auto simp: cursor_def)

lemma cursor_advance:
  assumes "cursor buf p (e @ rest)"
  shows "cursor buf (p + length e) rest"
proof -
  have "drop (length e) (drop p buf) = rest" using assms by (simp add: cursor_def)
  moreover have "p + length e \<le> length buf" using cursor_length [OF assms] by simp
  ultimately show ?thesis using assms by (simp add: cursor_def add.commute)
qed

locale codec =
  fixes enc :: "'a \<Rightarrow> u8 list"
    and dec :: "u8 list \<Rightarrow> nat \<Rightarrow> ('a \<times> nat) option"
    and ok :: "'a \<Rightarrow> bool"
  assumes dec_enc:
    "ok x \<Longrightarrow> cursor buf p (enc x @ rest) \<Longrightarrow> dec buf p = Some (x, p + length (enc x))"
  and dec_sound:
    "dec buf p = Some (x, q) \<Longrightarrow> cursor buf p r \<Longrightarrow>
       ok x \<and> q = p + length (enc x) \<and> (\<exists>rest. r = enc x @ rest)"
begin

lemma dec_at_start:
  "ok x \<Longrightarrow> length (enc x @ rest) < 2 ^ 64 \<Longrightarrow> dec (enc x @ rest) 0 = Some (x, length (enc x))"
  using dec_enc [of x "enc x @ rest" 0 rest] by (simp add: cursor_start)

lemma dec_soundE:
  assumes "dec buf p = Some (x, q)" and "cursor buf p r"
  obtains rest where "ok x" "q = p + length (enc x)" "r = enc x @ rest" "cursor buf q rest"
proof -
  from dec_sound [OF assms] obtain rest where
    *: "ok x" "q = p + length (enc x)" "r = enc x @ rest" by blast
  with assms(2) have "cursor buf q rest" by (simp add: cursor_advance)
  with * that show thesis by blast
qed

lemma prefix_free:
  assumes "ok x" and "ok y" and "enc x @ a = enc y @ b" and "length (enc x @ a) < 2 ^ 64"
  shows "x = y \<and> a = b"
proof -
  have "dec (enc x @ a) 0 = Some (x, length (enc x))"
    using assms(1,4) by (rule dec_at_start)
  moreover have "dec (enc y @ b) 0 = Some (y, length (enc y))"
    using assms(2,3,4) by (intro dec_at_start) simp_all
  ultimately show ?thesis using assms(3) by simp
qed

lemma truncated_rejected:
  assumes "ok x" and "n < length (enc x)" and "length (enc x) < 2 ^ 64"
  shows "dec (take n (enc x)) 0 = None"
proof (cases "dec (take n (enc x)) 0")
  case (Some yq)
  obtain y q where yq: "yq = (y, q)" by (cases yq)
  have "cursor (take n (enc x)) 0 (take n (enc x))" using assms(3) by (simp add: cursor_start)
  with Some yq obtain rest where y: "ok y" "take n (enc x) = enc y @ rest"
    by (auto elim: dec_soundE)
  have "enc x @ [] = take n (enc x) @ drop n (enc x)" by simp
  also have "\<dots> = enc y @ (rest @ drop n (enc x))" using y(2) by simp
  finally have "x = y \<and> [] = rest @ drop n (enc x)"
    using assms(1,3) y(1) by (intro prefix_free) simp_all
  with assms(2) show ?thesis by auto
qed

end

section \<open>Repetition\<close>

text \<open>
  The decoding loop \<open>for _ in 0..n { v.push(pull(buf, &mut p)?) }\<close>, for any \<open>pull\<close>.
\<close>

fun pull_many :: "(u8 list \<Rightarrow> nat \<Rightarrow> ('a \<times> nat) option) \<Rightarrow> nat \<Rightarrow> u8 list \<Rightarrow> nat \<Rightarrow> ('a list \<times> nat) option" where
  "pull_many pull 0 buf p = Some ([], p)"
| "pull_many pull (Suc n) buf p =
     do { (x, p) \<leftarrow> pull buf p; (xs, p) \<leftarrow> pull_many pull n buf p; Some (x # xs, p) }"

context codec begin

lemma pull_many_enc:
  "list_all ok xs \<Longrightarrow> cursor buf p (concat (map enc xs) @ rest) \<Longrightarrow>
     pull_many dec (length xs) buf p = Some (xs, p + length (concat (map enc xs)))"
proof (induction xs arbitrary: p)
  case Nil
  then show ?case by simp
next
  case (Cons x xs)
  from Cons.prems have c: "cursor buf p (enc x @ concat (map enc xs) @ rest)" by simp
  have "dec buf p = Some (x, p + length (enc x))"
    using Cons.prems(1) c by (intro dec_enc) simp_all
  moreover have "pull_many dec (length xs) buf (p + length (enc x)) =
      Some (xs, p + length (enc x) + length (concat (map enc xs)))"
    using Cons.prems(1) cursor_advance [OF c] by (intro Cons.IH) simp_all
  ultimately show ?case by simp
qed

lemma pull_many_sound:
  "pull_many dec n buf p = Some (xs, q) \<Longrightarrow> cursor buf p r \<Longrightarrow>
     length xs = n \<and> list_all ok xs \<and> q = p + length (concat (map enc xs)) \<and>
     (\<exists>rest. r = concat (map enc xs) @ rest)"
proof (induction n arbitrary: p xs r)
  case 0
  then show ?case by simp
next
  case (Suc n)
  from Suc.prems(1) obtain x p1 ys where
    x: "dec buf p = Some (x, p1)" and ys: "pull_many dec n buf p1 = Some (ys, q)"
    and xs: "xs = x # ys"
    by (auto split: bind_splits)
  from x Suc.prems(2) obtain r1 where
    r1: "ok x" "p1 = p + length (enc x)" "r = enc x @ r1" "cursor buf p1 r1"
    by (rule dec_soundE)
  from Suc.IH [OF ys r1(4)] r1 xs show ?case by auto
qed

end

section \<open>A counted sequence\<close>

text \<open>A length prefix of 32 bits and then the elements.\<close>

definition enc_u32 :: "u32 \<Rightarrow> u8 list" where
  "enc_u32 v = le_bytes 4 v"

definition enc_counted :: "('a \<Rightarrow> u8 list) \<Rightarrow> 'a list \<Rightarrow> u8 list" where
  "enc_counted enc xs = enc_u32 (word_of_nat (length xs)) @ concat (map enc xs)"

lemma length_enc_u32 [simp]: "length (enc_u32 v) = 4"
  by (simp add: enc_u32_def)

end
