(* ===== verification/Ipc.thy ===== *)
theory Ipc
  imports Codec
begin

text \<open>
  The wire protocol of \<^verbatim>\<open>src/ipc.rs\<close>: \<open>SpawnRequest::serialize\<close> and \<open>deserialize\<close>, the
  two response messages, and the helpers that push to and pull from a byte buffer. A position
  in the buffer (\<open>usize\<close>) is a \<^typ>\<open>nat\<close> whose additions are checked against \<open>2^64\<close>. The
  \<open>as u32\<close> casts of lengths wrap, so the round trip needs every length below \<open>2^32\<close>
  (\<open>wf_request\<close>); what \<open>deserialize\<close> accepts always satisfies that.
\<close>

section \<open>Definitions\<close>

record spawn_request =
  rq_workspace_path :: path
  rq_extra_ro_mounts :: "(path \<times> path) list"
  rq_memory_max_bytes :: u64
  rq_cpu_quota_us :: u64
  rq_cpu_period_us :: u64
  rq_pids_max :: u32
  rq_ttl_secs :: u64
  rq_ttl_nanos :: u32
  rq_argv :: "string list"
  rq_env :: "string list"
  rq_max_open_files :: u64
  rq_max_file_size_bytes :: u64
  rq_stack_size_bytes :: u64
  rq_cgroup_path :: path
  rq_host_uid :: u32
  rq_host_gid :: u32

subsection \<open>Encode helpers\<close>

definition push_u32 :: "u8 list \<Rightarrow> u32 \<Rightarrow> u8 list" where
  "push_u32 b v = b @ le_bytes 4 v"

definition push_u64 :: "u8 list \<Rightarrow> u64 \<Rightarrow> u8 list" where
  "push_u64 b v = b @ le_bytes 8 v"

definition push_bytes :: "u8 list \<Rightarrow> u8 list \<Rightarrow> u8 list" where
  "push_bytes b data = push_u32 b (word_of_nat (length data)) @ data"

definition push_path :: "u8 list \<Rightarrow> path \<Rightarrow> u8 list" where
  "push_path b p = push_bytes b (bytes_of p)"

subsection \<open>Decode helpers\<close>

definition pull_u32 :: "u8 list \<Rightarrow> nat \<Rightarrow> (u32 \<times> nat) option" where
  "pull_u32 buf p =
     do { e \<leftarrow> checked_add p 4;
          if e \<le> length buf then Some (from_le (take 4 (drop p buf)), e) else None }"

definition pull_u64 :: "u8 list \<Rightarrow> nat \<Rightarrow> (u64 \<times> nat) option" where
  "pull_u64 buf p =
     do { e \<leftarrow> checked_add p 8;
          if e \<le> length buf then Some (from_le (take 8 (drop p buf)), e) else None }"

definition pull_bytes :: "u8 list \<Rightarrow> nat \<Rightarrow> (u8 list \<times> nat) option" where
  "pull_bytes buf p =
     do { (len, p) \<leftarrow> pull_u32 buf p;
          e \<leftarrow> checked_add p (unat len);
          if e \<le> length buf then Some (take (unat len) (drop p buf), e) else None }"

definition pull_path :: "u8 list \<Rightarrow> nat \<Rightarrow> (path \<times> nat) option" where
  "pull_path buf p = do { (data, p) \<leftarrow> pull_bytes buf p; Some (string_at data, p) }"

definition pull_cstring :: "u8 list \<Rightarrow> nat \<Rightarrow> (string \<times> nat) option" where
  "pull_cstring buf p =
     do { (data, p) \<leftarrow> pull_bytes buf p; s \<leftarrow> cstring_new (string_at data); Some (s, p) }"

text \<open>The tuple expression in the loop over the extra mounts pulls its two paths in order.\<close>

definition pull_mount :: "u8 list \<Rightarrow> nat \<Rightarrow> ((path \<times> path) \<times> nat) option" where
  "pull_mount buf p =
     do { (host, p) \<leftarrow> pull_path buf p; (sandbox, p) \<leftarrow> pull_path buf p; Some ((host, sandbox), p) }"

subsection \<open>Requests\<close>

definition serialize :: "spawn_request \<Rightarrow> u8 list" where
  "serialize r =
     (let b = push_path [] (rq_workspace_path r);
          b = push_u32 b (word_of_nat (length (rq_extra_ro_mounts r)));
          b = foldl (\<lambda>b (host, sandbox). push_path (push_path b host) sandbox) b (rq_extra_ro_mounts r);
          b = push_u64 b (rq_memory_max_bytes r);
          b = push_u64 b (rq_cpu_quota_us r);
          b = push_u64 b (rq_cpu_period_us r);
          b = push_u32 b (rq_pids_max r);
          b = push_u64 b (rq_ttl_secs r);
          b = push_u32 b (rq_ttl_nanos r);
          b = push_u32 b (word_of_nat (length (rq_argv r)));
          b = foldl (\<lambda>b a. push_bytes b (bytes_of a)) b (rq_argv r);
          b = push_u32 b (word_of_nat (length (rq_env r)));
          b = foldl (\<lambda>b e. push_bytes b (bytes_of e)) b (rq_env r);
          b = push_u64 b (rq_max_open_files r);
          b = push_u64 b (rq_max_file_size_bytes r);
          b = push_u64 b (rq_stack_size_bytes r);
          b = push_path b (rq_cgroup_path r);
          b = push_u32 b (rq_host_uid r);
          b = push_u32 b (rq_host_gid r)
      in b)"

definition deserialize :: "u8 list \<Rightarrow> spawn_request option" where
  "deserialize buf =
     do { (workspace_path, p) \<leftarrow> pull_path buf 0;
          (n_extra, p) \<leftarrow> pull_u32 buf p;
          (extra_ro_mounts, p) \<leftarrow> pull_many pull_mount (unat n_extra) buf p;
          (memory_max_bytes, p) \<leftarrow> pull_u64 buf p;
          (cpu_quota_us, p) \<leftarrow> pull_u64 buf p;
          (cpu_period_us, p) \<leftarrow> pull_u64 buf p;
          (pids_max, p) \<leftarrow> pull_u32 buf p;
          (ttl_secs, p) \<leftarrow> pull_u64 buf p;
          (ttl_nanos, p) \<leftarrow> pull_u32 buf p;
          (n_argv, p) \<leftarrow> pull_u32 buf p;
          (argv, p) \<leftarrow> pull_many pull_cstring (unat n_argv) buf p;
          (n_env, p) \<leftarrow> pull_u32 buf p;
          (env, p) \<leftarrow> pull_many pull_cstring (unat n_env) buf p;
          (max_open_files, p) \<leftarrow> pull_u64 buf p;
          (max_file_size_bytes, p) \<leftarrow> pull_u64 buf p;
          (stack_size_bytes, p) \<leftarrow> pull_u64 buf p;
          (cgroup_path, p) \<leftarrow> pull_path buf p;
          (host_uid, p) \<leftarrow> pull_u32 buf p;
          (host_gid, p) \<leftarrow> pull_u32 buf p;
          Some \<lparr>rq_workspace_path = workspace_path, rq_extra_ro_mounts = extra_ro_mounts,
            rq_memory_max_bytes = memory_max_bytes, rq_cpu_quota_us = cpu_quota_us,
            rq_cpu_period_us = cpu_period_us, rq_pids_max = pids_max,
            rq_ttl_secs = ttl_secs, rq_ttl_nanos = ttl_nanos, rq_argv = argv, rq_env = env,
            rq_max_open_files = max_open_files, rq_max_file_size_bytes = max_file_size_bytes,
            rq_stack_size_bytes = stack_size_bytes, rq_cgroup_path = cgroup_path,
            rq_host_uid = host_uid, rq_host_gid = host_gid\<rparr> }"

subsection \<open>Responses\<close>

text \<open>
  \<open>Errno::from_raw\<close> of the nix crate is the parameter \<open>from_raw\<close>; an \<open>Errno\<close> is its
  raw value.
\<close>

definition RESP_OK :: u8 where "RESP_OK = 0"
definition RESP_ERR :: u8 where "RESP_ERR = 1"

definition encode_ok_response :: "i32 \<Rightarrow> u8 list" where
  "encode_ok_response child_pid = [RESP_OK] @ le_bytes 4 child_pid"

definition encode_err_response :: "i32 \<Rightarrow> u8 list" where
  "encode_err_response errno_val = [RESP_ERR] @ le_bytes 4 errno_val"

definition decode_response :: "(i32 \<Rightarrow> errno) \<Rightarrow> u8 list \<Rightarrow> (errno + i32) option" where
  "decode_response from_raw buf =
     (if length buf < 5 then None
      else if buf ! 0 = RESP_OK then Some (Inr (from_le (take 4 (drop 1 buf))))
      else if buf ! 0 = RESP_ERR then Some (Inl (from_raw (from_le (take 4 (drop 1 buf)))))
      else None)"

subsection \<open>What the round trip is about\<close>

definition wf_text :: "string \<Rightarrow> bool" where
  "wf_text s \<longleftrightarrow> length s < 2 ^ 32"

definition wf_cstring :: "string \<Rightarrow> bool" where
  "wf_cstring s \<longleftrightarrow> length s < 2 ^ 32 \<and> NUL \<notin> set s"

definition wf_mount :: "path \<times> path \<Rightarrow> bool" where
  "wf_mount m \<longleftrightarrow> wf_text (fst m) \<and> wf_text (snd m)"

definition wf_counted :: "('a \<Rightarrow> bool) \<Rightarrow> 'a list \<Rightarrow> bool" where
  "wf_counted ok xs \<longleftrightarrow> length xs < 2 ^ 32 \<and> list_all ok xs"

definition wf_request :: "spawn_request \<Rightarrow> bool" where
  "wf_request r \<longleftrightarrow>
     wf_text (rq_workspace_path r) \<and> wf_text (rq_cgroup_path r) \<and>
     wf_counted wf_mount (rq_extra_ro_mounts r) \<and>
     wf_counted wf_cstring (rq_argv r) \<and> wf_counted wf_cstring (rq_env r)"

definition enc_u64 :: "u64 \<Rightarrow> u8 list" where
  "enc_u64 v = le_bytes 8 v"

definition enc_text :: "string \<Rightarrow> u8 list" where
  "enc_text s = enc_u32 (word_of_nat (length s)) @ bytes_of s"

definition enc_mount :: "path \<times> path \<Rightarrow> u8 list" where
  "enc_mount m = enc_text (fst m) @ enc_text (snd m)"

text \<open>The layout of a request on the wire.\<close>

definition enc_request :: "spawn_request \<Rightarrow> u8 list" where
  "enc_request r =
     enc_text (rq_workspace_path r) @ enc_counted enc_mount (rq_extra_ro_mounts r) @
     enc_u64 (rq_memory_max_bytes r) @ enc_u64 (rq_cpu_quota_us r) @ enc_u64 (rq_cpu_period_us r) @
     enc_u32 (rq_pids_max r) @ enc_u64 (rq_ttl_secs r) @ enc_u32 (rq_ttl_nanos r) @
     enc_counted enc_text (rq_argv r) @ enc_counted enc_text (rq_env r) @
     enc_u64 (rq_max_open_files r) @ enc_u64 (rq_max_file_size_bytes r) @
     enc_u64 (rq_stack_size_bytes r) @ enc_text (rq_cgroup_path r) @
     enc_u32 (rq_host_uid r) @ enc_u32 (rq_host_gid r)"

section \<open>The field codecs\<close>

lemma checked_add_cursor:
  "cursor buf p r \<Longrightarrow> n \<le> length r \<Longrightarrow> checked_add p n = Some (p + n)"
  by (auto simp: cursor_def checked_add_def)

lemma unat_of_nat_u32 [simp]: "n < 2 ^ 32 \<Longrightarrow> unat (word_of_nat n :: u32) = n"
  by (simp add: unat_of_nat)

interpretation u32: codec enc_u32 pull_u32 "\<lambda>_. True"
proof unfold_locales
  fix x :: u32 and buf p rest
  assume "cursor buf p (enc_u32 x @ rest)"
  then show "pull_u32 buf p = Some (x, p + length (enc_u32 x))"
    using cursor_length [of buf p "enc_u32 x @ rest"]
    by (simp add: pull_u32_def checked_add_def cursor_def) (simp add: enc_u32_def)
next
  fix x :: u32 and buf p q r
  assume "pull_u32 buf p = Some (x, q)" and c: "cursor buf p r"
  then have "p + 4 \<le> length buf" "q = p + 4" "x = from_le (take 4 (drop p buf))"
    by (auto simp: pull_u32_def checked_add_def split: if_splits bind_splits)
  moreover from this c have "r = take 4 (drop p buf) @ drop 4 r"
    by (auto simp: cursor_def)
  ultimately show "True \<and> q = p + length (enc_u32 x) \<and> (\<exists>rest. r = enc_u32 x @ rest)"
    by (auto simp: enc_u32_def)
qed

interpretation u64: codec enc_u64 pull_u64 "\<lambda>_. True"
proof unfold_locales
  fix x :: u64 and buf p rest
  assume "cursor buf p (enc_u64 x @ rest)"
  then show "pull_u64 buf p = Some (x, p + length (enc_u64 x))"
    using cursor_length [of buf p "enc_u64 x @ rest"]
    by (simp add: pull_u64_def checked_add_def cursor_def enc_u64_def)
next
  fix x :: u64 and buf p q r
  assume "pull_u64 buf p = Some (x, q)" and c: "cursor buf p r"
  then have "p + 8 \<le> length buf" "q = p + 8" "x = from_le (take 8 (drop p buf))"
    by (auto simp: pull_u64_def checked_add_def split: if_splits bind_splits)
  moreover from this c have "r = take 8 (drop p buf) @ drop 8 r"
    by (auto simp: cursor_def)
  ultimately show "True \<and> q = p + length (enc_u64 x) \<and> (\<exists>rest. r = enc_u64 x @ rest)"
    by (auto simp: enc_u64_def)
qed

lemma pull_bytes_enc:
  assumes "length bs < 2 ^ 32"
    and c: "cursor buf p ((enc_u32 (word_of_nat (length bs)) @ bs) @ rest)"
  shows "pull_bytes buf p = Some (bs, p + 4 + length bs)"
proof -
  let ?h = "enc_u32 (word_of_nat (length bs))"
  from c have c0: "cursor buf p (?h @ bs @ rest)" by simp
  have c1: "cursor buf (p + 4) (bs @ rest)" using cursor_advance [OF c0] by simp
  have "pull_u32 buf p = Some (word_of_nat (length bs), p + 4)"
    using u32.dec_enc [OF _ c0] by simp
  moreover have "checked_add (p + 4) (length bs) = Some (p + 4 + length bs)"
    by (rule checked_add_cursor [OF c1]) simp
  moreover have "p + 4 + length bs \<le> length buf" using cursor_length [OF c1] by simp
  moreover have "take (length bs) (drop (p + 4) buf) = bs" using c1 by (simp add: cursor_def)
  ultimately show ?thesis using assms(1) by (simp add: pull_bytes_def)
qed

lemma pull_bytes_sound:
  assumes "pull_bytes buf p = Some (bs, q)" and c: "cursor buf p r"
  shows "length bs < 2 ^ 32 \<and> q = p + 4 + length bs \<and>
    (\<exists>rest. r = (enc_u32 (word_of_nat (length bs)) @ bs) @ rest)"
proof -
  from assms(1) obtain len p1 where
    len: "pull_u32 buf p = Some (len, p1)" and
    q: "p1 + unat len \<le> length buf" "q = p1 + unat len" "bs = take (unat len) (drop p1 buf)"
    by (auto simp: pull_bytes_def checked_add_def split: bind_splits if_splits)
  from len c obtain r1 where r1: "p1 = p + length (enc_u32 len)" "r = enc_u32 len @ r1" "cursor buf p1 r1"
    by (rule u32.dec_soundE)
  have bs: "length bs = unat len" using q by simp
  moreover have "unat len < 2 ^ 32" using unsigned_less [of len, where ?'a = nat] by simp
  moreover have "r1 = bs @ drop (unat len) r1" using q(3) r1(3) by (simp add: cursor_def)
  moreover have "word_of_nat (length bs) = len" using bs by simp
  ultimately show ?thesis using r1 q(2) by (metis append_assoc length_enc_u32)
qed

lemma length_enc_text [simp]: "length (enc_text s) = 4 + length s"
  by (simp add: enc_text_def)

interpretation path: codec enc_text pull_path wf_text
proof unfold_locales
  fix x :: path and buf p rest
  assume "wf_text x" and "cursor buf p (enc_text x @ rest)"
  then show "pull_path buf p = Some (x, p + length (enc_text x))"
    using pull_bytes_enc [of "bytes_of x" buf p rest]
    by (simp add: enc_text_def wf_text_def pull_path_def)
next
  fix x :: path and buf p q r
  assume "pull_path buf p = Some (x, q)" and c: "cursor buf p r"
  then obtain bs where bs: "pull_bytes buf p = Some (bs, q)" "x = string_at bs"
    by (auto simp: pull_path_def split: bind_splits)
  from pull_bytes_sound [OF bs(1) c] bs(2)
  show "wf_text x \<and> q = p + length (enc_text x) \<and> (\<exists>rest. r = enc_text x @ rest)"
    by (auto simp: wf_text_def enc_text_def)
qed

interpretation cstring: codec enc_text pull_cstring wf_cstring
proof unfold_locales
  fix x :: string and buf p rest
  assume "wf_cstring x" and "cursor buf p (enc_text x @ rest)"
  then show "pull_cstring buf p = Some (x, p + length (enc_text x))"
    using pull_bytes_enc [of "bytes_of x" buf p rest]
    by (simp add: enc_text_def wf_cstring_def pull_cstring_def cstring_new_def)
next
  fix x :: string and buf p q r
  assume "pull_cstring buf p = Some (x, q)" and c: "cursor buf p r"
  then obtain bs where bs: "pull_bytes buf p = Some (bs, q)" "x = string_at bs" "NUL \<notin> set x"
    by (auto simp: pull_cstring_def cstring_new_def split: bind_splits if_splits)
  from pull_bytes_sound [OF bs(1) c] bs(2,3)
  show "wf_cstring x \<and> q = p + length (enc_text x) \<and> (\<exists>rest. r = enc_text x @ rest)"
    by (auto simp: wf_cstring_def enc_text_def)
qed

interpretation mount: codec enc_mount pull_mount wf_mount
proof unfold_locales
  fix x :: "path \<times> path" and buf p rest
  assume "wf_mount x" and c: "cursor buf p (enc_mount x @ rest)"
  then have ok: "wf_text (fst x)" "wf_text (snd x)"
    and c0: "cursor buf p (enc_text (fst x) @ enc_text (snd x) @ rest)"
    by (simp_all add: wf_mount_def enc_mount_def)
  from path.dec_enc [OF ok(1) c0] path.dec_enc [OF ok(2) cursor_advance [OF c0]]
  show "pull_mount buf p = Some (x, p + length (enc_mount x))"
    by (simp add: pull_mount_def enc_mount_def)
next
  fix x :: "path \<times> path" and buf p q r
  assume "pull_mount buf p = Some (x, q)" and c: "cursor buf p r"
  then obtain h s p1 where h: "pull_path buf p = Some (h, p1)" and s: "pull_path buf p1 = Some (s, q)"
    and x: "x = (h, s)" by (auto simp: pull_mount_def split: bind_splits)
  from h c obtain r1 where r1: "wf_text h" "p1 = p + length (enc_text h)" "r = enc_text h @ r1"
    "cursor buf p1 r1" by (rule path.dec_soundE)
  from s r1(4) obtain r2 where "wf_text s" "q = p1 + length (enc_text s)" "r1 = enc_text s @ r2"
    by (rule path.dec_soundE)
  with r1 x show "wf_mount x \<and> q = p + length (enc_mount x) \<and> (\<exists>rest. r = enc_mount x @ rest)"
    by (simp add: wf_mount_def enc_mount_def)
qed

section \<open>Counted sequences\<close>

context codec begin

lemma counted_enc:
  assumes ok: "wf_counted ok xs" and c: "cursor buf p (enc_counted enc xs @ rest)"
  shows "pull_u32 buf p = Some (word_of_nat (length xs), p + 4)"
    and "pull_many dec (length xs) buf (p + 4) = Some (xs, p + length (enc_counted enc xs))"
proof -
  let ?h = "enc_u32 (word_of_nat (length xs))"
  from c have c0: "cursor buf p (?h @ concat (map enc xs) @ rest)" by (simp add: enc_counted_def)
  show "pull_u32 buf p = Some (word_of_nat (length xs), p + 4)"
    using u32.dec_enc [OF _ c0] by simp
  have "cursor buf (p + 4) (concat (map enc xs) @ rest)" using cursor_advance [OF c0] by simp
  with ok show "pull_many dec (length xs) buf (p + 4) = Some (xs, p + length (enc_counted enc xs))"
    using pull_many_enc [of xs buf "p + 4" rest]
    by (simp add: wf_counted_def enc_counted_def add.assoc)
qed

lemma counted_soundE:
  assumes n: "pull_u32 buf p = Some (n, p1)" and xs: "pull_many dec (unat n) buf p1 = Some (xs, q)"
    and c: "cursor buf p r"
  obtains rest where "wf_counted ok xs" "q = p + length (enc_counted enc xs)"
    "r = enc_counted enc xs @ rest" "cursor buf q rest"
proof -
  from n c obtain r1 where r1: "p1 = p + length (enc_u32 n)" "r = enc_u32 n @ r1" "cursor buf p1 r1"
    by (rule u32.dec_soundE)
  from pull_many_sound [OF xs r1(3)] obtain rest where
    *: "length xs = unat n" "list_all ok xs" "q = p1 + length (concat (map enc xs))"
    "r1 = concat (map enc xs) @ rest" by blast
  have n': "word_of_nat (length xs) = n" using *(1) by simp
  have "length xs < 2 ^ 32" using *(1) unsigned_less [of n, where ?'a = nat] by simp
  then have "wf_counted ok xs" using *(2) by (simp add: wf_counted_def)
  moreover have "q = p + length (enc_counted enc xs)" "r = enc_counted enc xs @ rest"
    using * r1 n' by (simp_all add: enc_counted_def)
  ultimately show thesis using that c by (auto intro: cursor_advance)
qed

end

section \<open>Requests\<close>

lemma foldl_push_mounts:
  "foldl (\<lambda>b (host, sandbox). push_path (push_path b host) sandbox) b ms =
     b @ concat (map enc_mount ms)"
  by (induction ms arbitrary: b)
    (auto simp: push_path_def push_bytes_def push_u32_def enc_mount_def enc_text_def enc_u32_def)

lemma foldl_push_texts:
  "foldl (\<lambda>b a. push_bytes b (bytes_of a)) b xs = b @ concat (map enc_text xs)"
  by (induction xs arbitrary: b)
    (auto simp: push_bytes_def push_u32_def enc_text_def enc_u32_def)

lemma serialize_eq_enc: "serialize r = enc_request r"
  unfolding serialize_def Let_def foldl_push_mounts foldl_push_texts
  by (simp add: enc_request_def push_path_def push_bytes_def push_u32_def push_u64_def
      enc_counted_def enc_text_def enc_u32_def enc_u64_def)

lemma deserialize_enc:
  assumes wf: "wf_request r" and c: "cursor buf 0 (enc_request r @ rest)"
  shows "deserialize buf = Some r"
proof -
  note wfs = wf [unfolded wf_request_def]
  note c0 = c [unfolded enc_request_def append_assoc]
  note c1 = cursor_advance [OF c0] note c2 = cursor_advance [OF c1]
  note c3 = cursor_advance [OF c2] note c4 = cursor_advance [OF c3]
  note c5 = cursor_advance [OF c4] note c6 = cursor_advance [OF c5]
  note c7 = cursor_advance [OF c6] note c8 = cursor_advance [OF c7]
  note c9 = cursor_advance [OF c8] note c10 = cursor_advance [OF c9]
  note c11 = cursor_advance [OF c10] note c12 = cursor_advance [OF c11]
  note c13 = cursor_advance [OF c12] note c14 = cursor_advance [OF c13]
  note c15 = cursor_advance [OF c14]
  note steps = path.dec_enc [OF _ c0] mount.counted_enc [OF _ c1] u64.dec_enc [OF _ c2]
    u64.dec_enc [OF _ c3] u64.dec_enc [OF _ c4] u32.dec_enc [OF _ c5] u64.dec_enc [OF _ c6]
    u32.dec_enc [OF _ c7] cstring.counted_enc [OF _ c8] cstring.counted_enc [OF _ c9]
    u64.dec_enc [OF _ c10] u64.dec_enc [OF _ c11] u64.dec_enc [OF _ c12] path.dec_enc [OF _ c13]
    u32.dec_enc [OF _ c14] u32.dec_enc [OF _ c15]
  have lens: "length (rq_extra_ro_mounts r) < 2 ^ 32" "length (rq_argv r) < 2 ^ 32"
    "length (rq_env r) < 2 ^ 32"
    using wfs by (simp_all add: wf_counted_def)
  show ?thesis
    unfolding deserialize_def using wfs lens
    by (simp only: steps simp_thms bind.bind_lunit prod.case unat_of_nat_u32) simp
qed

lemma deserialize_sound:
  assumes d: "deserialize buf = Some r" and len: "length buf < 2 ^ 64"
  shows "wf_request r \<and> (\<exists>rest. buf = enc_request r @ rest)"
proof -
  obtain ws p0 n1 p1 ms p2 v3 p3 v4 p4 v5 p5 v6 p6 v7 p7 v8 p8 n9 p9 av p10 n11 p11 ev p12
    v13 p13 v14 p14 v15 p15 cg p16 v17 p17 v18 p18 where
    s0: "pull_path buf 0 = Some (ws, p0)" and s1: "pull_u32 buf p0 = Some (n1, p1)" and
    s2: "pull_many pull_mount (unat n1) buf p1 = Some (ms, p2)" and
    s3: "pull_u64 buf p2 = Some (v3, p3)" and s4: "pull_u64 buf p3 = Some (v4, p4)" and
    s5: "pull_u64 buf p4 = Some (v5, p5)" and s6: "pull_u32 buf p5 = Some (v6, p6)" and
    s7: "pull_u64 buf p6 = Some (v7, p7)" and s8: "pull_u32 buf p7 = Some (v8, p8)" and
    s9: "pull_u32 buf p8 = Some (n9, p9)" and
    s10: "pull_many pull_cstring (unat n9) buf p9 = Some (av, p10)" and
    s11: "pull_u32 buf p10 = Some (n11, p11)" and
    s12: "pull_many pull_cstring (unat n11) buf p11 = Some (ev, p12)" and
    s13: "pull_u64 buf p12 = Some (v13, p13)" and s14: "pull_u64 buf p13 = Some (v14, p14)" and
    s15: "pull_u64 buf p14 = Some (v15, p15)" and s16: "pull_path buf p15 = Some (cg, p16)" and
    s17: "pull_u32 buf p16 = Some (v17, p17)" and s18: "pull_u32 buf p17 = Some (v18, p18)" and
    r: "r = \<lparr>rq_workspace_path = ws, rq_extra_ro_mounts = ms, rq_memory_max_bytes = v3,
      rq_cpu_quota_us = v4, rq_cpu_period_us = v5, rq_pids_max = v6, rq_ttl_secs = v7,
      rq_ttl_nanos = v8, rq_argv = av, rq_env = ev, rq_max_open_files = v13,
      rq_max_file_size_bytes = v14, rq_stack_size_bytes = v15, rq_cgroup_path = cg,
      rq_host_uid = v17, rq_host_gid = v18\<rparr>"
    using d unfolding deserialize_def
    by (elim bind_pairE) (rule that, assumption+, simp)
  from cursor_start [OF len] obtain r0 where w0: "wf_text ws" "buf = enc_text ws @ r0"
    "cursor buf p0 r0" by (rule path.dec_soundE [OF s0])
  from w0(3) obtain r2 where w2: "wf_counted wf_mount ms" "r0 = enc_counted enc_mount ms @ r2"
    "cursor buf p2 r2" by (rule mount.counted_soundE [OF s1 s2])
  from w2(3) obtain r3 where w3: "r2 = enc_u64 v3 @ r3" "cursor buf p3 r3"
    by (rule u64.dec_soundE [OF s3])
  from w3(2) obtain r4 where w4: "r3 = enc_u64 v4 @ r4" "cursor buf p4 r4"
    by (rule u64.dec_soundE [OF s4])
  from w4(2) obtain r5 where w5: "r4 = enc_u64 v5 @ r5" "cursor buf p5 r5"
    by (rule u64.dec_soundE [OF s5])
  from w5(2) obtain r6 where w6: "r5 = enc_u32 v6 @ r6" "cursor buf p6 r6"
    by (rule u32.dec_soundE [OF s6])
  from w6(2) obtain r7 where w7: "r6 = enc_u64 v7 @ r7" "cursor buf p7 r7"
    by (rule u64.dec_soundE [OF s7])
  from w7(2) obtain r8 where w8: "r7 = enc_u32 v8 @ r8" "cursor buf p8 r8"
    by (rule u32.dec_soundE [OF s8])
  from w8(2) obtain r10 where w10: "wf_counted wf_cstring av" "r8 = enc_counted enc_text av @ r10"
    "cursor buf p10 r10" by (rule cstring.counted_soundE [OF s9 s10])
  from w10(3) obtain r12 where w12: "wf_counted wf_cstring ev" "r10 = enc_counted enc_text ev @ r12"
    "cursor buf p12 r12" by (rule cstring.counted_soundE [OF s11 s12])
  from w12(3) obtain r13 where w13: "r12 = enc_u64 v13 @ r13" "cursor buf p13 r13"
    by (rule u64.dec_soundE [OF s13])
  from w13(2) obtain r14 where w14: "r13 = enc_u64 v14 @ r14" "cursor buf p14 r14"
    by (rule u64.dec_soundE [OF s14])
  from w14(2) obtain r15 where w15: "r14 = enc_u64 v15 @ r15" "cursor buf p15 r15"
    by (rule u64.dec_soundE [OF s15])
  from w15(2) obtain r16 where w16: "wf_text cg" "r15 = enc_text cg @ r16" "cursor buf p16 r16"
    by (rule path.dec_soundE [OF s16])
  from w16(3) obtain r17 where w17: "r16 = enc_u32 v17 @ r17" "cursor buf p17 r17"
    by (rule u32.dec_soundE [OF s17])
  from w17(2) obtain r18 where w18: "r17 = enc_u32 v18 @ r18" by (rule u32.dec_soundE [OF s18])
  have "wf_request r" using w0(1) w2(1) w10(1) w12(1) w16(1) by (simp add: wf_request_def r)
  moreover have "buf = enc_request r @ r18"
    by (simp add: enc_request_def r w0(2) w2(2) w3(1) w4(1) w5(1) w6(1) w7(1) w8(1) w10(2) w12(2)
        w13(1) w14(1) w15(1) w16(2) w17(1) w18)
  ultimately show ?thesis by blast
qed

text \<open>
  A request is a codec of its own, read at the start of the buffer: \<open>deserialize\<close> with
  the offset behind the request, and at an offset by dropping what comes before.
\<close>

definition pull_request :: "u8 list \<Rightarrow> nat \<Rightarrow> (spawn_request \<times> nat) option" where
  "pull_request buf p = do { r \<leftarrow> deserialize (drop p buf); Some (r, p + length (serialize r)) }"

interpretation request: codec serialize pull_request wf_request
proof unfold_locales
  fix x :: spawn_request and buf p rest
  assume "wf_request x" and c: "cursor buf p (serialize x @ rest)"
  moreover from c have "cursor (drop p buf) 0 (enc_request x @ rest)"
    using cursor_length [OF c] by (simp add: cursor_def serialize_eq_enc)
  ultimately have "deserialize (drop p buf) = Some x" by (blast intro: deserialize_enc)
  then show "pull_request buf p = Some (x, p + length (serialize x))"
    by (simp add: pull_request_def)
next
  fix x :: spawn_request and buf p q r
  assume "pull_request buf p = Some (x, q)" and c: "cursor buf p r"
  then have d: "deserialize r = Some x" "q = p + length (serialize x)" "length r < 2 ^ 64"
    by (auto simp: pull_request_def cursor_def bind_eq_Some_conv)
  from deserialize_sound [OF d(1,3)] d(2)
  show "wf_request x \<and> q = p + length (serialize x) \<and> (\<exists>rest. r = serialize x @ rest)"
    by (simp add: serialize_eq_enc)
qed

lemma pull_request_at_start: "pull_request buf 0 = None \<longleftrightarrow> deserialize buf = None"
  by (cases "deserialize buf") (simp_all add: pull_request_def)

section \<open>Properties\<close>

definition example_request :: spawn_request where
  "example_request = \<lparr>rq_workspace_path = ''/tmp/ws'',
     rq_extra_ro_mounts = [(''/usr'', ''/usr''), (''/opt/lib'', ''/lib'')],
     rq_memory_max_bytes = 134217728, rq_cpu_quota_us = 50000, rq_cpu_period_us = 100000,
     rq_pids_max = 64, rq_ttl_secs = 10, rq_ttl_nanos = 0,
     rq_argv = [''/bin/sh'', ''-c'', ''true''], rq_env = [''PATH=/bin''],
     rq_max_open_files = 256, rq_max_file_size_bytes = 67108864, rq_stack_size_bytes = 8388608,
     rq_cgroup_path = ''/sys/fs/cgroup/sandbox-1'', rq_host_uid = 1000, rq_host_gid = 1000\<rparr>"

lemma wf_example_request: "wf_request example_request"
  by (simp add: wf_request_def example_request_def wf_text_def wf_counted_def wf_mount_def
      wf_cstring_def NUL_def)

lemma length_serialize_example: "length (serialize example_request) = 197"
  by (simp add: serialize_eq_enc enc_request_def example_request_def enc_counted_def enc_mount_def
      enc_u64_def)

text \<open>
  C6. The server reads back the request the client wrote: \<open>deserialize\<close> of
  \<open>serialize r\<close>, with anything behind it, is \<open>r\<close>, for every request whose lengths
  fit their 32-bit prefixes and whose arguments have no NUL byte.
\<close>

theorem deserialize_serialize:
  assumes "wf_request r" and "length (serialize r @ rest) < 2 ^ 64"
  shows "deserialize (serialize r @ rest) = Some r"
  using request.dec_at_start [OF assms] by (auto simp: pull_request_def bind_eq_Some_conv)

theorem deserialize_serialize_witness:
  "deserialize (serialize example_request @ [7]) = Some example_request"
  by (rule deserialize_serialize) (simp_all add: wf_example_request length_serialize_example)

text \<open>
  C29. Whatever \<open>deserialize\<close> accepts is a request in canonical form: the buffer starts with
  the serialisation of the result, whose lengths fit and whose arguments are C strings.
\<close>

theorem deserialize_canonical:
  assumes "deserialize buf = Some r" and "length buf < 2 ^ 64"
  shows "wf_request r \<and> (\<exists>rest. buf = serialize r @ rest)"
  using deserialize_sound [OF assms] by (simp add: serialize_eq_enc)

theorem deserialize_canonical_witness:
  "wf_request example_request \<and>
   (\<exists>rest. serialize example_request @ [7] = serialize example_request @ rest)"
proof (rule deserialize_canonical)
  have c: "cursor (serialize example_request @ [7]) 0 (enc_request example_request @ [7])"
    using length_serialize_example by (simp add: cursor_def serialize_eq_enc)
  show "deserialize (serialize example_request @ [7]) = Some example_request"
    by (rule deserialize_enc [OF wf_example_request c])
qed (simp add: length_serialize_example)

text \<open>
  C30. A request cut short anywhere is rejected: no proper prefix of a serialised request
  deserialises.
\<close>

theorem deserialize_truncated:
  assumes "wf_request r" and "length (serialize r) < 2 ^ 64" and "n < length (serialize r)"
  shows "deserialize (take n (serialize r)) = None"
  using request.truncated_rejected [OF assms(1,3,2)] by (simp add: pull_request_at_start)

theorem deserialize_truncated_witness:
  "deserialize (take 196 (serialize example_request)) = None"
  by (rule deserialize_truncated) (simp_all add: wf_example_request length_serialize_example)

text \<open>
  Responses: the client decodes the server's success message to the pid and its error
  message to the error number, whatever follows; every message shorter than five bytes or with
  another tag is rejected, and nothing else is.
\<close>

theorem decode_response_complete:
  "decode_response from_raw (encode_ok_response pid @ rest) = Some (Inr pid) \<and>
   decode_response from_raw (encode_err_response e @ rest) = Some (Inl (from_raw e)) \<and>
   (decode_response from_raw buf = None \<longleftrightarrow>
      \<not> (5 \<le> length buf \<and> (hd buf = RESP_OK \<or> hd buf = RESP_ERR)))"
proof -
  have "hd buf = buf ! 0" if "5 \<le> length buf" using that by (cases buf) simp_all
  then show ?thesis
    by (auto simp: decode_response_def encode_ok_response_def encode_err_response_def
        RESP_OK_def RESP_ERR_def)
qed

end
