(* ===== verification/Namespace.thy ===== *)
theory Namespace
  imports MountSetup Landlock Seccomp Ipc
begin

text \<open>
  \<^verbatim>\<open>src/namespace.rs\<close>, and the last step of \<^verbatim>\<open>src/seccomp.rs\<close> (loading the filter): \<open>clone3\<close>, the child
  from the barrier to \<open>execve\<close>, the report on the error pipe, and the uid and gid maps its parent
  writes. A call that succeeds at \<open>execve\<close> replaces the process, so the code after it does not
  run: \<open>child_run\<close> then ends with \<open>Execed\<close>. \<open>confined\<close> is the specification of what comes before.
\<close>

section \<open>Definitions\<close>

subsection \<open>clone3\<close>

definition CLONE_FLAGS :: u64 where
  "CLONE_FLAGS =
     CLONE_NEWUSER OR CLONE_NEWPID OR CLONE_NEWNS OR CLONE_NEWNET OR CLONE_NEWUTS OR CLONE_NEWIPC OR
     CLONE_NEWCGROUP OR CLONE_PIDFD"

record clone_result =
  cr_child_pid :: i32
  cr_pidfd :: fd

text \<open>The answer to \<open>clone3\<close> has the return value and, in the parent, the pidfd the kernel stored.\<close>

definition clone3_sandbox :: "'w kernel \<Rightarrow> ('w, errno, clone_result option) io" where
  "clone3_sandbox k =
     bnd (call_last k (Proc (Clone3 CLONE_FLAGS (word_of_int SIGCHLD))) (\<lambda>e. e)) (\<lambda>a.
       if ans_num a = 0 then ret None
       else ret (Some \<lparr>cr_child_pid = word_of_int (ans_num a),
              cr_pidfd = (case ans_fds a of [] \<Rightarrow> - 1 | f # _ \<Rightarrow> f)\<rparr>))"

subsection \<open>The child\<close>

record child_context =
  cc_req :: spawn_request
  cc_sync_read_fd :: fd
  cc_slave_fd :: fd
  cc_stderr_write_fd :: fd
  cc_err_pipe_write :: fd

text \<open>A panic in the child is \<open>Panicked\<close>: indexing an empty \<open>argv\<close>.\<close>

datatype child_error = Failed child_failure | Panicked

datatype child_end = Execed | Exited_with int

definition wait_for_mapping :: "'w kernel \<Rightarrow> fd \<Rightarrow> ('w, child_failure, unit) io" where
  "wait_for_mapping k eventfd =
     bnd (call_try k (Fd (ReadFd eventfd 8))) (\<lambda>n.
       if (case n of Inr a \<Rightarrow> ans_num a | Inl _ \<Rightarrow> - 1) \<noteq> 8
       then bnd get_errno (\<lambda>e. throw (WaitForMapping, e))
       else ret ())"

definition apply_rlimits :: "'w kernel \<Rightarrow> spawn_request \<Rightarrow> ('w, errno, unit) io" where
  "apply_rlimits k req =
     bnd (call_nix k (Proc (Setrlimit RLIMIT_NOFILE (rq_max_open_files req) (rq_max_open_files req))) (\<lambda>e. e)) (\<lambda>_.
     bnd (call_nix k (Proc (Setrlimit RLIMIT_FSIZE (rq_max_file_size_bytes req) (rq_max_file_size_bytes req)))
            (\<lambda>e. e)) (\<lambda>_.
     unit_of (call_nix k (Proc (Setrlimit RLIMIT_STACK (rq_stack_size_bytes req) (rq_stack_size_bytes req)))
            (\<lambda>e. e))))"

definition LINUX_CAPABILITY_VERSION_3 :: u32 where "LINUX_CAPABILITY_VERSION_3 = 0x20080522"
definition SECBIT_NOROOT :: u64 where "SECBIT_NOROOT = push_bit 2 1"
definition SECBIT_NOROOT_LOCKED :: u64 where "SECBIT_NOROOT_LOCKED = push_bit 3 1"
definition SECBIT_NO_SETUID_FIXUP :: u64 where "SECBIT_NO_SETUID_FIXUP = push_bit 4 1"
definition SECBIT_NO_SETUID_FIXUP_LOCKED :: u64 where "SECBIT_NO_SETUID_FIXUP_LOCKED = push_bit 5 1"
definition SECBIT_KEEP_CAPS_LOCKED :: u64 where "SECBIT_KEEP_CAPS_LOCKED = push_bit 1 1"

definition secbits :: u64 where
  "secbits = SECBIT_NOROOT OR SECBIT_NOROOT_LOCKED OR SECBIT_NO_SETUID_FIXUP OR
     SECBIT_NO_SETUID_FIXUP_LOCKED OR SECBIT_KEEP_CAPS_LOCKED"

definition drop_capabilities :: "'w kernel \<Rightarrow> ('w, errno, unit) io" where
  "drop_capabilities k =
     bnd (call_last k (Proc (Prctl PR_SET_SECUREBITS secbits)) (\<lambda>e. e)) (\<lambda>_.
     unit_of (call_last k (Proc (Capset LINUX_CAPABILITY_VERSION_3 0 [(0, 0, 0), (0, 0, 0)])) (\<lambda>e. e)))"

definition load_filter :: "'w kernel \<Rightarrow> (string \<Rightarrow> u32) \<Rightarrow> ('w, sandbox_error, unit) io" where
  "load_filter k sys = unit_of (call_last k (Lsm (SeccompLoad (filter_prog sys))) SeccompLoadFailed)"

definition exec_target :: "'w kernel \<Rightarrow> child_context \<Rightarrow> ('w, child_error, unit) io" where
  "exec_target k ctx =
     (case rq_argv (cc_req ctx) of
        [] \<Rightarrow> throw Panicked
      | prog # _ \<Rightarrow>
          unit_of (call_nix k (Proc (Execve prog (rq_argv (cc_req ctx)) (rq_env (cc_req ctx))))
            (\<lambda>e. Failed (ExecStage, e))))"

text \<open>\<open>confine\<close> is \<open>child_setup\<close> up to the call of \<open>exec_target\<close>.\<close>

definition attach_stdio :: "'w kernel \<Rightarrow> child_context \<Rightarrow> ('w, child_error, unit) io" where
  "attach_stdio k ctx =
     bnd (call_nix k (Fd (Dup2 (cc_slave_fd ctx) 0)) (\<lambda>e. Failed (PtySlaveSetup, e))) (\<lambda>_.
     bnd (call_nix k (Fd (Dup2 (cc_slave_fd ctx) 1)) (\<lambda>e. Failed (PtySlaveSetup, e))) (\<lambda>_.
     bnd (call_nix k (Fd (Dup2 (cc_stderr_write_fd ctx) 2)) (\<lambda>e. Failed (PtySlaveSetup, e))) (\<lambda>_.
     bnd (call_ignore k (Fd (CloseFd (cc_slave_fd ctx)))) (\<lambda>_.
     bnd (call_ignore k (Fd (CloseFd (cc_stderr_write_fd ctx)))) (\<lambda>_.
     call_ignore k (Fd (CloseFd (cc_sync_read_fd ctx))))))))"

definition confine :: "'w kernel \<Rightarrow> (string \<Rightarrow> u32) \<Rightarrow> child_context \<Rightarrow> ('w, child_error, unit) io" where
  "confine k sys ctx =
     bnd (map_error Failed (wait_for_mapping k (cc_sync_read_fd ctx))) (\<lambda>_.
     bnd (call_ignore k (Proc (Prctl PR_SET_PDEATHSIG (word_of_int SIGKILL)))) (\<lambda>_.
     bnd (or_errno (\<lambda>e. Failed (BuildRootfs, e)) (create_scratch_root k)) (\<lambda>new_root.
     bnd (map_error Failed (mount_setup k
            \<lparr>mc_workspace_path = rq_workspace_path (cc_req ctx),
             mc_extra_ro_mounts = rq_extra_ro_mounts (cc_req ctx), mc_new_root = new_root\<rparr>)) (\<lambda>_.
     bnd (or_errno (\<lambda>e. Failed (LandlockStage, e))
            (apply_ruleset k ''/workspace'' (rq_extra_ro_mounts (cc_req ctx)))) (\<lambda>_.
     bnd (map_error (\<lambda>e. Failed (ExecStage, e)) (apply_rlimits k (cc_req ctx))) (\<lambda>_.
     bnd (map_error (\<lambda>e. Failed (CapabilityDrop, e)) (drop_capabilities k)) (\<lambda>_.
     bnd (attach_stdio k ctx) (\<lambda>_.
     bnd (call_last k (Proc (Prctl PR_SET_NO_NEW_PRIVS 1)) (\<lambda>e. Failed (NoNewPrivs, e))) (\<lambda>_.
     bnd (call_ignore k (Proc (Prctl PR_SET_DUMPABLE 0))) (\<lambda>_.
     bnd (attempt (load_filter k sys)) (\<lambda>r.
       case r of
         Inr _ \<Rightarrow> ret ()
       | Inl (SeccompLoadFailed e) \<Rightarrow> throw (Failed (SeccompStage, e))
       | Inl _ \<Rightarrow> bnd get_errno (\<lambda>e. throw (Failed (SeccompStage, e))))))))))))))"

definition child_setup :: "'w kernel \<Rightarrow> (string \<Rightarrow> u32) \<Rightarrow> child_context \<Rightarrow> ('w, child_error, unit) io" where
  "child_setup k sys ctx = bnd (confine k sys ctx) (\<lambda>_. exec_target k ctx)"

definition report_bytes :: "child_stage \<Rightarrow> errno \<Rightarrow> u8 list" where
  "report_bytes stage e = stage_u8 stage # le_bytes 4 e"

definition report_child_error :: "'w kernel \<Rightarrow> fd \<Rightarrow> child_stage \<Rightarrow> errno \<Rightarrow> ('w, 'e, child_end) io" where
  "report_child_error k pipe_fd stage e =
     bnd (call_ignore k (Fd (WriteFd pipe_fd (report_bytes stage e)))) (\<lambda>_.
     bnd (call_ignore k (Proc (ExitProcess 1))) (\<lambda>_. ret (Exited_with 1)))"

definition child_run :: "'w kernel \<Rightarrow> (string \<Rightarrow> u32) \<Rightarrow> child_context \<Rightarrow> ('w, unit, child_end) io" where
  "child_run k sys ctx =
     bnd (attempt (child_setup k sys ctx)) (\<lambda>r.
       case r of
         Inr _ \<Rightarrow> ret Execed
       | Inl (Failed (stage, e)) \<Rightarrow> report_child_error k (cc_err_pipe_write ctx) stage e
       | Inl Panicked \<Rightarrow> throw ())"

subsection \<open>The parent's maps\<close>

definition write_uid_gid_maps :: "'w kernel \<Rightarrow> i32 \<Rightarrow> u32 \<Rightarrow> u32 \<Rightarrow> ('w, sandbox_error, unit) io" where
  "write_uid_gid_maps k pid host_uid host_gid =
     (let proc_dir = ''/proc/'' @ dec_int (sint pid) in
      bnd (call_last k (Fs (WriteNew (proc_dir @ ''/setgroups'') ''deny'')) UserNamespaceSetupFailed) (\<lambda>_.
      bnd (call_last k (Fs (WriteNew (proc_dir @ ''/uid_map'') (''0 '' @ dec (unat host_uid) @ '' 1'' @ [newline])))
             UserNamespaceSetupFailed) (\<lambda>_.
      unit_of (call_last k (Fs (WriteNew (proc_dir @ ''/gid_map'') (''0 '' @ dec (unat host_gid) @ '' 1'' @ [newline])))
             UserNamespaceSetupFailed))))"

subsection \<open>Specifications\<close>

definition child_mounts :: "child_context \<Rightarrow> path \<Rightarrow> mount_context" where
  "child_mounts ctx root =
     \<lparr>mc_workspace_path = rq_workspace_path (cc_req ctx),
      mc_extra_ro_mounts = rq_extra_ro_mounts (cc_req ctx), mc_new_root = root\<rparr>"

definition rlimit_calls :: "spawn_request \<Rightarrow> call list" where
  "rlimit_calls req =
     [Proc (Setrlimit RLIMIT_NOFILE (rq_max_open_files req) (rq_max_open_files req)),
      Proc (Setrlimit RLIMIT_FSIZE (rq_max_file_size_bytes req) (rq_max_file_size_bytes req)),
      Proc (Setrlimit RLIMIT_STACK (rq_stack_size_bytes req) (rq_stack_size_bytes req))]"

definition cap_calls :: "call list" where
  "cap_calls =
     [Proc (Prctl PR_SET_SECUREBITS secbits),
      Proc (Capset LINUX_CAPABILITY_VERSION_3 0 [(0, 0, 0), (0, 0, 0)])]"

definition stdio_calls :: "child_context \<Rightarrow> call list" where
  "stdio_calls ctx =
     [Fd (Dup2 (cc_slave_fd ctx) 0), Fd (Dup2 (cc_slave_fd ctx) 1), Fd (Dup2 (cc_stderr_write_fd ctx) 2),
      Fd (CloseFd (cc_slave_fd ctx)), Fd (CloseFd (cc_stderr_write_fd ctx)), Fd (CloseFd (cc_sync_read_fd ctx))]"

definition lock_calls :: "(string \<Rightarrow> u32) \<Rightarrow> call list" where
  "lock_calls sys =
     [Proc (Prctl PR_SET_NO_NEW_PRIVS 1), Proc (Prctl PR_SET_DUMPABLE 0), Lsm (SeccompLoad (filter_prog sys))]"

text \<open>
  The events before \<open>execve\<close>: the barrier passed with all eight bytes, the signal on the parent's
  death, the scratch root, the mounts, the Landlock restriction, then the limits, capabilities,
  descriptors, no-new-privileges and the filter.
\<close>

definition confined :: "(string \<Rightarrow> u32) \<Rightarrow> child_context \<Rightarrow> event list \<Rightarrow> bool" where
  "confined sys ctx es \<longleftrightarrow>
     (\<exists>root a start mounts rules rest.
        es = (Fd (ReadFd (cc_sync_read_fd ctx) 8), Inr a) # start @ mounts @ rules @ rest \<and>
        ans_num a = 8 \<and>
        calls_of start = [Proc (Prctl PR_SET_PDEATHSIG (word_of_int SIGKILL)), Env ClockMonotonicRaw,
          Fs (CreateDir root 0x1C0)] \<and>
        mount_steps (child_mounts ctx root) mounts \<and>
        restricted ''/workspace'' (rq_extra_ro_mounts (cc_req ctx)) rules \<and>
        calls_of rest = rlimit_calls (cc_req ctx) @ cap_calls @ stdio_calls ctx @ lock_calls sys)"

fun child_stage_call :: "(string \<Rightarrow> u32) \<Rightarrow> child_context \<Rightarrow> child_stage \<Rightarrow> call \<Rightarrow> bool" where
  "child_stage_call sys ctx WaitForMapping c \<longleftrightarrow> c = Fd (ReadFd (cc_sync_read_fd ctx) 8)"
| "child_stage_call sys ctx LandlockStage c \<longleftrightarrow> (\<exists>l. c = Lsm l)"
| "child_stage_call sys ctx CapabilityDrop c \<longleftrightarrow> c \<in> set cap_calls"
| "child_stage_call sys ctx PtySlaveSetup c \<longleftrightarrow> c \<in> set (stdio_calls ctx)"
| "child_stage_call sys ctx NoNewPrivs c \<longleftrightarrow> c = Proc (Prctl PR_SET_NO_NEW_PRIVS 1)"
| "child_stage_call sys ctx SeccompStage c \<longleftrightarrow> c = Lsm (SeccompLoad (filter_prog sys))"
| "child_stage_call sys ctx ExecStage c \<longleftrightarrow>
     c \<in> set (rlimit_calls (cc_req ctx)) \<or>
     c = Proc (Execve (hd (rq_argv (cc_req ctx))) (rq_argv (cc_req ctx)) (rq_env (cc_req ctx)))"
| "child_stage_call sys ctx BuildRootfs c \<longleftrightarrow>
     (\<exists>root. c = Fs (CreateDir root 0x1C0) \<or> stage_call (child_mounts ctx root) BuildRootfs c)"
| "child_stage_call sys ctx stage c \<longleftrightarrow> (\<exists>root. stage_call (child_mounts ctx root) stage c)"

text \<open>
  An event that stops the child: the call failed, or the barrier's read was short, or the kernel has a
  Landlock too old. The event to blame for a failure stopped it and is a call of the stage that is told.
  The errno told is \<open>told_errno\<close>.
\<close>

fun stopping :: "event \<Rightarrow> bool" where
  "stopping (c, Inl x) \<longleftrightarrow> True"
| "stopping (Fd (ReadFd f n), Inr a) \<longleftrightarrow> ans_num a \<noteq> int n"
| "stopping (Lsm LandlockVersion, Inr a) \<longleftrightarrow> (word_of_int (ans_num a) :: u32) < 2"
| "stopping (c, Inr a) \<longleftrightarrow> False"

fun child_blame :: "(string \<Rightarrow> u32) \<Rightarrow> child_context \<Rightarrow> child_error \<Rightarrow> event \<Rightarrow> bool" where
  "child_blame sys ctx (Failed (stage, n)) ev \<longleftrightarrow> child_stage_call sys ctx stage (fst ev) \<and> stopping ev"
| "child_blame sys ctx Panicked ev \<longleftrightarrow> False"

fun told_errno :: "child_error \<Rightarrow> errno option" where
  "told_errno (Failed (stage, n)) = Some n"
| "told_errno Panicked = None"

section \<open>Lemmas\<close>

lemma ff_wait:
  "ff looked_at (map_error Failed (wait_for_mapping k (cc_sync_read_fd ctx))) (child_blame sys ctx)
     (\<lambda>_ es. \<exists>a. es = [(Fd (ReadFd (cc_sync_read_fd ctx) 8), Inr a)] \<and> ans_num a = 8)"
  unfolding ff_def wait_for_mapping_def
  by (intro emits_rules) (auto intro!: blamed_now split: sum.splits)

lemma stopping_Inl: "snd ev = Inl x \<Longrightarrow> stopping ev"
  by (cases ev) simp

lemma ff_scratch_root:
  "ff looked_at (or_errno (\<lambda>e. Failed (BuildRootfs, e)) (create_scratch_root k)) (child_blame sys ctx)
     (\<lambda>root es. calls_of es = [Env ClockMonotonicRaw, Fs (CreateDir root 0x1C0)])"
proof (rule ff_or_errno)
  show "ff looked_at (create_scratch_root k) (\<lambda>_ ev. (\<exists>root. fst ev = Fs (CreateDir root 0x1C0)) \<and> stopping ev)
     (\<lambda>root es. calls_of es = [Env ClockMonotonicRaw, Fs (CreateDir root 0x1C0)])"
    unfolding create_scratch_root_def scratch_root_path_def Let_def by (intro ff_rules) auto
qed auto

lemma mount_blame_child:
  "mount_blame (child_mounts ctx root) f ev \<Longrightarrow> child_blame sys ctx (Failed f) ev"
  by (cases f; cases "fst f") (auto simp: mount_blame_def stopping_Inl)

lemma ff_mounts:
  "ff looked_at (map_error Failed (mount_setup k (child_mounts ctx root))) (child_blame sys ctx)
     (\<lambda>_. mount_steps (child_mounts ctx root))"
  by (rule ff_map_error, rule ff_mount_setup, rule mount_blame_child)

lemma landlock_blame_call: "landlock_blame e ev \<Longrightarrow> (\<exists>l. fst ev = Lsm l) \<and> stopping ev"
  by (cases e; cases ev) (auto split: sum.splits)

lemma ff_landlock:
  "ff looked_at (or_errno (\<lambda>e. Failed (LandlockStage, e)) (apply_ruleset k ws extra)) (child_blame sys ctx)
     (\<lambda>_. restricted ws extra)"
  by (rule ff_or_errno [OF ff_apply_ruleset]) (simp add: landlock_blame_call)

lemma ff_rlimits:
  "ff looked_at (map_error (\<lambda>e. Failed (ExecStage, e)) (apply_rlimits k (cc_req ctx))) (child_blame sys ctx)
     (\<lambda>_ es. calls_of es = rlimit_calls (cc_req ctx))"
proof (rule ff_map_error)
  show "ff looked_at (apply_rlimits k (cc_req ctx))
     (\<lambda>_ ev. fst ev \<in> set (rlimit_calls (cc_req ctx)) \<and> stopping ev)
     (\<lambda>_ es. calls_of es = rlimit_calls (cc_req ctx))"
    unfolding apply_rlimits_def by (intro ff_rules) (auto simp: rlimit_calls_def)
qed simp

lemma ff_caps:
  "ff looked_at (map_error (\<lambda>e. Failed (CapabilityDrop, e)) (drop_capabilities k)) (child_blame sys ctx)
     (\<lambda>_ es. calls_of es = cap_calls)"
proof (rule ff_map_error)
  show "ff looked_at (drop_capabilities k)
     (\<lambda>_ ev. fst ev \<in> set cap_calls \<and> stopping ev)
     (\<lambda>_ es. calls_of es = cap_calls)"
    unfolding drop_capabilities_def by (intro ff_rules) (auto simp: cap_calls_def)
qed simp

lemma ff_stdio:
  "ff looked_at (attach_stdio k ctx) (child_blame sys ctx) (\<lambda>_ es. calls_of es = stdio_calls ctx)"
  unfolding attach_stdio_def by (intro ff_rules) (auto simp: stdio_calls_def)

lemma ff_filter:
  "ff looked_at (bnd (attempt (load_filter k sys)) (\<lambda>r.
       case r of
         Inr _ \<Rightarrow> ret ()
       | Inl (SeccompLoadFailed e) \<Rightarrow> throw (Failed (SeccompStage, e))
       | Inl _ \<Rightarrow> bnd get_errno (\<lambda>e. throw (Failed (SeccompStage, e))))) (child_blame sys ctx)
     (\<lambda>_ es. calls_of es = [Lsm (SeccompLoad (filter_prog sys))])"
  unfolding ff_def load_filter_def
  by (intro emits_rules; simp add: emits_def blamed_now)

lemma confinedI:
  assumes "\<exists>a. es = [(Fd (ReadFd (cc_sync_read_fd ctx) 8), Inr a)] \<and> ans_num a = 8"
    and "calls_of e1 = [Proc (Prctl PR_SET_PDEATHSIG (word_of_int SIGKILL))]"
    and "calls_of e2 = [Env ClockMonotonicRaw, Fs (CreateDir root 0x1C0)]"
    and "mount_steps (child_mounts ctx root) e3"
    and "restricted ''/workspace'' (rq_extra_ro_mounts (cc_req ctx)) e4"
    and "calls_of e5 = rlimit_calls (cc_req ctx)" "calls_of e6 = cap_calls" "calls_of e7 = stdio_calls ctx"
    and "calls_of e8 = [Proc (Prctl PR_SET_NO_NEW_PRIVS 1)]" "calls_of e9 = [Proc (Prctl PR_SET_DUMPABLE 0)]"
    and "calls_of e10 = [Lsm (SeccompLoad (filter_prog sys))]"
  shows "confined sys ctx (es @ e1 @ e2 @ e3 @ e4 @ e5 @ e6 @ e7 @ e8 @ e9 @ e10)"
proof -
  from assms(1) obtain a where "es = [(Fd (ReadFd (cc_sync_read_fd ctx) 8), Inr a)]" "ans_num a = 8" by blast
  moreover have "calls_of (e1 @ e2) =
      [Proc (Prctl PR_SET_PDEATHSIG (word_of_int SIGKILL)), Env ClockMonotonicRaw, Fs (CreateDir root 0x1C0)]"
    by (simp add: assms)
  moreover have "calls_of (e5 @ e6 @ e7 @ e8 @ e9 @ e10) =
      rlimit_calls (cc_req ctx) @ cap_calls @ stdio_calls ctx @ lock_calls sys"
    by (simp add: assms lock_calls_def)
  ultimately show ?thesis
    unfolding confined_def using assms(4,5)
    by (intro exI [of _ root] exI [of _ a] exI [of _ "e1 @ e2"] exI [of _ e3] exI [of _ e4]
        exI [of _ "e5 @ e6 @ e7 @ e8 @ e9 @ e10"]) simp
qed

lemma ff_confine:
  "ff looked_at (confine k sys ctx) (child_blame sys ctx) (\<lambda>_. confined sys ctx)"
  unfolding confine_def child_mounts_def [symmetric]
  by (rule ff_bnd [OF ff_wait], rule ff_bnd,
      rule ff_call_ignore [where Q = "\<lambda>_ es. calls_of es = [Proc (Prctl PR_SET_PDEATHSIG (word_of_int SIGKILL))]"],
      simp, simp, rule ff_bnd [OF ff_scratch_root], rule ff_bnd [OF ff_mounts], rule ff_bnd [OF ff_landlock],
      rule ff_bnd [OF ff_rlimits], rule ff_bnd [OF ff_caps], rule ff_bnd [OF ff_stdio], rule ff_bnd,
      rule ff_call_last [where Q = "\<lambda>_ es. calls_of es = [Proc (Prctl PR_SET_NO_NEW_PRIVS 1)]"], simp, simp,
      rule ff_bnd, rule ff_call_ignore [where Q = "\<lambda>_ es. calls_of es = [Proc (Prctl PR_SET_DUMPABLE 0)]"],
      simp, simp, rule ff_weaken [OF ff_filter], assumption, rule confinedI)

text \<open>The errno that the child tells.\<close>

lemma filter_step:
  "bnd (attempt (load_filter k sys)) (\<lambda>r.
       case r of
         Inr _ \<Rightarrow> ret ()
       | Inl (SeccompLoadFailed e) \<Rightarrow> throw (Failed (SeccompStage, e))
       | Inl _ \<Rightarrow> bnd get_errno (\<lambda>e. throw (Failed (SeccompStage, e)))) =
   unit_of (call_last k (Lsm (SeccompLoad (filter_prog sys))) (\<lambda>e. Failed (SeccompStage, e)))"
  by (auto simp: fun_eq_iff load_filter_def bnd_def attempt_def unit_of_def call_last_def map_err_def
      split: prod.splits sum.splits)

lemma honest_mounts: "honest (\<lambda>f. told_errno (Failed f)) (mount_setup k mc)"
  unfolding mount_setup_def do_mount_def bind_device_def bind_extra_def mask_proc_paths_def mask_proc_path_def
    pivot_def Let_def
  by (intro honest_rules; (simp only: split: prod.splits sum.splits option.splits)?; (intro allI impI conjI honest_rules)?)
    (simp_all add: honest_rules)

lemma honest_landlock: "honest (\<lambda>_. None) (apply_ruleset k ws extra)"
  unfolding apply_ruleset_def probe_abi_version_def add_path_rule_def
  by (intro honest_rules; (simp only: split: prod.splits sum.splits)?; (intro allI impI conjI honest_rules)?)
    (simp_all add: honest_rules)

lemma honest_wait: "honest (\<lambda>f. told_errno (Failed f)) (wait_for_mapping k f)"
  unfolding wait_for_mapping_def by (intro honest_rules) simp_all

lemma honest_scratch_root: "honest (\<lambda>_. None) (create_scratch_root k)"
  unfolding create_scratch_root_def scratch_root_path_def Let_def by (intro honest_rules) simp_all

lemma honest_confine: "honest told_errno (confine k sys ctx)"
  unfolding confine_def apply_rlimits_def drop_capabilities_def attach_stdio_def filter_step
  by (intro honest_rules honest_wait honest_scratch_root honest_mounts honest_landlock) simp_all

lemma honest_child_setup: "honest told_errno (child_setup k sys ctx)"
proof -
  have "honest told_errno (exec_target k ctx)"
    unfolding exec_target_def by (cases "rq_argv (cc_req ctx)") (auto intro!: honest_rules)
  then show ?thesis unfolding child_setup_def by (intro honest_rules honest_confine)
qed

text \<open>Nothing is executed before the last step, whatever fails.\<close>

definition no_exec :: "call \<Rightarrow> bool" where
  "no_exec c \<longleftrightarrow> (\<nexists>p av ev. c = Proc (Execve p av ev))"

lemma no_exec_simps [simp]:
  "no_exec (Fs f)" "no_exec (Env e)" "no_exec (Fd d)" "no_exec (Mnt m)" "no_exec (Lsm l)"
  "no_exec (Proc (Prctl op v))" "no_exec (Proc (Capset w q ds))" "no_exec (Proc (Setrlimit r x y))"
  "no_exec (Proc (ExitProcess n))" "\<not> no_exec (Proc (Execve p av ev))"
  by (simp_all add: no_exec_def)

text \<open>The calls of the child before the last step.\<close>

fun confine_call :: "child_context \<Rightarrow> call \<Rightarrow> bool" where
  "confine_call ctx (Fs _) \<longleftrightarrow> True"
| "confine_call ctx (Env _) \<longleftrightarrow> True"
| "confine_call ctx (Mnt _) \<longleftrightarrow> True"
| "confine_call ctx (Lsm _) \<longleftrightarrow> True"
| "confine_call ctx (Proc (Prctl _ _)) \<longleftrightarrow> True"
| "confine_call ctx (Proc (Capset _ _ _)) \<longleftrightarrow> True"
| "confine_call ctx (Proc (Setrlimit _ _ _)) \<longleftrightarrow> True"
| "confine_call ctx (Fd (ReadFd _ _)) \<longleftrightarrow> True"
| "confine_call ctx (Fd (Dup2 _ f)) \<longleftrightarrow> f \<in> {0, 1, 2}"
| "confine_call ctx (Fd (CloseFd f)) \<longleftrightarrow> f \<in> {cc_slave_fd ctx, cc_stderr_write_fd ctx, cc_sync_read_fd ctx}"
| "confine_call ctx _ \<longleftrightarrow> False"

lemma stays_mounts: "stays (confine_call ctx) (mount_setup k mc)"
  unfolding mount_setup_def do_mount_def bind_device_def bind_extra_def mask_proc_paths_def mask_proc_path_def
    pivot_def Let_def
  by (intro stays_rules; (simp only: split: prod.splits sum.splits option.splits)?; (intro allI impI stays_rules)?)
    (simp_all add: stays_rules)

lemma stays_landlock: "stays (confine_call ctx) (apply_ruleset k ws extra)"
  unfolding apply_ruleset_def probe_abi_version_def add_path_rule_def
  by (intro stays_rules; (simp only: split: prod.splits sum.splits)?; (intro allI impI stays_rules)?)
    (simp_all add: stays_rules)

lemma stays_confine_calls: "stays (confine_call ctx) (confine k sys ctx)"
  unfolding confine_def wait_for_mapping_def create_scratch_root_def scratch_root_path_def apply_rlimits_def
    drop_capabilities_def attach_stdio_def load_filter_def Let_def
  by (intro stays_rules stays_mounts stays_landlock; (simp only: split: sum.splits sandbox_error.splits)?;
      (intro allI impI conjI stays_rules)?)
    (simp_all add: stays_rules)

lemma confine_call_no_exec: "confine_call ctx c \<Longrightarrow> no_exec c"
  by (cases "(ctx, c)" rule: confine_call.cases) (auto simp: no_exec_def)

lemma stays_confine: "stays no_exec (confine k sys ctx)"
  by (rule stays_mono [OF stays_confine_calls confine_call_no_exec])

text \<open>All of the child's calls.\<close>

definition child_call :: "child_context \<Rightarrow> call \<Rightarrow> bool" where
  "child_call ctx c \<longleftrightarrow>
     confine_call ctx c \<or> (\<exists>p av ev. c = Proc (Execve p av ev)) \<or> (\<exists>n. c = Proc (ExitProcess n)) \<or>
     (\<exists>bs. c = Fd (WriteFd (cc_err_pipe_write ctx) bs))"

lemma stays_child_run: "stays (child_call ctx) (child_run k sys ctx)"
proof -
  have confine: "stays (child_call ctx) (confine k sys ctx)"
    by (rule stays_mono [OF stays_confine_calls]) (simp add: child_call_def)
  have exec: "stays (child_call ctx) (exec_target k ctx)"
    unfolding exec_target_def by (cases "rq_argv (cc_req ctx)") (auto intro!: stays_rules simp: child_call_def)
  show ?thesis
    unfolding child_run_def child_setup_def report_child_error_def
    by (intro stays_rules confine exec; (simp only: split: sum.splits child_error.splits prod.splits)?;
        (intro allI impI conjI stays_rules)?)
      (simp_all add: stays_rules child_call_def)
qed

abbreviation exec_call :: "child_context \<Rightarrow> call" where
  "exec_call ctx \<equiv> Proc (Execve (hd (rq_argv (cc_req ctx))) (rq_argv (cc_req ctx)) (rq_env (cc_req ctx)))"

text \<open>
  How a child's setup fails: before the last step nothing was executed; at the last step the process
  was already confined.
\<close>

definition setup_failed :: "(string \<Rightarrow> u32) \<Rightarrow> child_context \<Rightarrow> child_error \<Rightarrow> event list \<Rightarrow> bool" where
  "setup_failed sys ctx f es \<longleftrightarrow>
     (case f of
        Panicked \<Rightarrow> rq_argv (cc_req ctx) = [] \<and> confined sys ctx es \<and> only no_exec es
      | Failed d \<Rightarrow> \<exists>pre ev. es = pre @ [ev] \<and> ok_but looked_at pre \<and> child_blame sys ctx (Failed d) ev \<and>
          only no_exec pre \<and> (no_exec (fst ev) \<or> fst ev = exec_call ctx \<and> confined sys ctx pre))"

definition setup_done :: "(string \<Rightarrow> u32) \<Rightarrow> child_context \<Rightarrow> event list \<Rightarrow> bool" where
  "setup_done sys ctx es \<longleftrightarrow>
     (\<exists>pre x. es = pre @ [(exec_call ctx, Inr x)] \<and> confined sys ctx pre \<and> ok_but looked_at pre \<and>
        only no_exec pre \<and> rq_argv (cc_req ctx) \<noteq> [])"

lemma emits_confine:
  "emits (confine k sys ctx) (setup_failed sys ctx)
     (\<lambda>_ es. confined sys ctx es \<and> ok_but looked_at es \<and> only no_exec es)"
proof (rule emits_weaken)
  show "emits (confine k sys ctx) (\<lambda>e es. blamed looked_at (child_blame sys ctx) e es \<and> only no_exec es)
      (\<lambda>_ es. (ok_but looked_at es \<and> confined sys ctx es) \<and> only no_exec es)"
    by (rule emits_conj [OF ff_confine [unfolded ff_def] stays_confine [unfolded stays_def]])
next
  fix e es
  assume b: "blamed looked_at (child_blame sys ctx) e es \<and> only no_exec es"
  then obtain pre ev where es: "es = pre @ [ev]" and pre: "ok_but looked_at pre" and
    ev: "child_blame sys ctx e ev" by (auto simp: blamed_def)
  then obtain d where "e = Failed d" by (cases e) auto
  with es pre ev b show "setup_failed sys ctx e es" by (auto simp: setup_failed_def)
qed auto

lemma emits_child_setup:
  "emits (child_setup k sys ctx) (setup_failed sys ctx) (\<lambda>_. setup_done sys ctx)"
  unfolding child_setup_def
proof (rule emits_bnd, rule emits_weaken [OF emits_confine], assumption)
  fix es
  assume es: "confined sys ctx es \<and> ok_but looked_at es \<and> only no_exec es"
  show "emits (exec_target k ctx) (\<lambda>e es'. setup_failed sys ctx e (es @ es'))
      (\<lambda>_ es'. setup_done sys ctx (es @ es'))"
  proof (cases "rq_argv (cc_req ctx)")
    case Nil
    then show ?thesis using es by (simp add: exec_target_def emits_def setup_failed_def)
  next
    case (Cons p av)
    then have c: "exec_target k ctx = unit_of (call_nix k (exec_call ctx) (\<lambda>e. Failed (ExecStage, e)))"
      by (simp add: exec_target_def)
    show ?thesis unfolding c using es Cons
      by (intro emits_rules) (auto simp: setup_failed_def setup_done_def)
  qed
qed

definition reported :: "(string \<Rightarrow> u32) \<Rightarrow> child_context \<Rightarrow> event list \<Rightarrow> bool" where
  "reported sys ctx es \<longleftrightarrow>
     (\<exists>d fes w x. setup_failed sys ctx (Failed d) fes \<and>
        es = fes @ [(Fd (WriteFd (cc_err_pipe_write ctx) (report_bytes (fst d) (snd d))), w),
          (Proc (ExitProcess 1), x)])"

lemma reportedI:
  "setup_failed sys ctx (Failed (stage, n)) es \<Longrightarrow>
   reported sys ctx (es @ [(Fd (WriteFd (cc_err_pipe_write ctx) (report_bytes stage n)), w),
     (Proc (ExitProcess 1), x)])"
  unfolding reported_def by (intro exI conjI) (assumption, simp)

lemma emits_child_run:
  "emits (child_run k sys ctx) (\<lambda>_. setup_failed sys ctx Panicked)
     (\<lambda>r es. case r of Execed \<Rightarrow> setup_done sys ctx es | Exited_with c \<Rightarrow> c = 1 \<and> reported sys ctx es)"
  unfolding child_run_def
proof (rule emits_bnd, rule emits_attempt, rule emits_weaken [OF emits_child_setup])
  fix f es
  assume f: "setup_failed sys ctx f es"
  show "emits (case Inl f of Inr _ \<Rightarrow> ret Execed
        | Inl (Failed (stage, e)) \<Rightarrow> report_child_error k (cc_err_pipe_write ctx) stage e
        | Inl Panicked \<Rightarrow> throw ())
      (\<lambda>_ es'. setup_failed sys ctx Panicked (es @ es'))
      (\<lambda>r es'. case r of Execed \<Rightarrow> setup_done sys ctx (es @ es')
         | Exited_with c \<Rightarrow> c = 1 \<and> reported sys ctx (es @ es'))"
  proof (cases f)
    case (Failed d)
    then show ?thesis using f
      by (cases d) (auto simp: report_child_error_def intro!: emits_rules reportedI)
  next
    case Panicked
    then show ?thesis using f by (simp add: emits_def)
  qed
next
  fix x es
  assume "setup_done sys ctx es"
  then show "emits (case Inr x of Inr _ \<Rightarrow> ret Execed
        | Inl (Failed (stage, e)) \<Rightarrow> report_child_error k (cc_err_pipe_write ctx) stage e
        | Inl Panicked \<Rightarrow> throw ())
      (\<lambda>_ es'. setup_failed sys ctx Panicked (es @ es'))
      (\<lambda>r es'. case r of Execed \<Rightarrow> setup_done sys ctx (es @ es')
         | Exited_with c \<Rightarrow> c = 1 \<and> reported sys ctx (es @ es'))"
    by (simp add: emits_def)
qed

text \<open>A child that exits: what stopped its setup, what it was told, and the two calls that follow.\<close>

lemma child_run_exited:
  assumes "child_run k sys ctx s = (Inr (Exited_with c), t)"
  obtains pre ev stage n w x where "c = 1" and "trace t = trace s @ pre @
      [ev, (Fd (WriteFd (cc_err_pipe_write ctx) (report_bytes stage n)), w), (Proc (ExitProcess 1), x)]"
    and "ok_but looked_at pre" and "child_stage_call sys ctx stage (fst ev)" and "stopping ev"
    and "errno_told n (last_errno s) (pre @ [ev])"
proof (cases "child_setup k sys ctx s")
  case (Pair r u)
  have "\<nexists>x. r = Inr x" "r \<noteq> Inl Panicked" using assms Pair by (auto simp: child_run_def bnd_def attempt_def)
  then obtain stage n where r: "r = Inl (Failed (stage, n))"
    by (metis child_error.exhaust old.sum.exhaust surj_pair)
  from emits_fail [OF emits_child_setup Pair [unfolded r]] obtain fes where fes: "trace u = trace s @ fes"
    "setup_failed sys ctx (Failed (stage, n)) fes" by blast
  then obtain pre ev where pre: "fes = pre @ [ev]" "ok_but looked_at pre" "child_blame sys ctx (Failed (stage, n)) ev"
    by (auto simp: setup_failed_def)
  from honest_child_setup Pair obtain es where "trace u = trace s @ es"
    "\<And>f e. r = Inl f \<Longrightarrow> told_errno f = Some e \<Longrightarrow> errno_told e (last_errno s) es"
    by (rule honestE) blast
  then have "errno_told n (last_errno s) (pre @ [ev])" using r fes(1) pre(1) by simp
  moreover have run: "report_child_error k (cc_err_pipe_write ctx) stage n u = (Inr (Exited_with c) :: unit + child_end, t)"
    using assms Pair r by (simp add: child_run_def bnd_def attempt_def)
  have "emits (report_child_error k (cc_err_pipe_write ctx) stage n :: ('a, unit, child_end) io) (\<lambda>_ _. False)
      (\<lambda>e es. e = Exited_with 1 \<and> (\<exists>w x. es = [(Fd (WriteFd (cc_err_pipe_write ctx) (report_bytes stage n)), w),
         (Proc (ExitProcess 1), x)]))"
    unfolding report_child_error_def by (intro emits_rules) auto
  from emits_Inr [OF this run] obtain w x where "c = 1" "trace t = trace u @
      [(Fd (WriteFd (cc_err_pipe_write ctx) (report_bytes stage n)), w), (Proc (ExitProcess 1), x)]" by auto
  ultimately show ?thesis using fes(1) pre by (intro that [where n = n and stage = stage]) simp_all
qed

text \<open>Where an \<open>execve\<close> can stand in the child's events.\<close>

definition exec_confined :: "(string \<Rightarrow> u32) \<Rightarrow> child_context \<Rightarrow> event list \<Rightarrow> bool" where
  "exec_confined sys ctx es \<longleftrightarrow>
     (\<forall>pre p av ev x post. es = pre @ (Proc (Execve p av ev), x) # post \<longrightarrow>
        confined sys ctx pre \<and> ok_but looked_at pre \<and> Proc (Execve p av ev) = exec_call ctx)"

lemma only_no_execD: "only no_exec es \<Longrightarrow> (Proc (Execve p av ev), x) \<notin> set es"
  by (auto simp: only_def no_exec_def)

lemma exec_confined_none: "only no_exec es \<Longrightarrow> exec_confined sys ctx es"
  by (auto simp: exec_confined_def dest: only_no_execD)

lemma exec_confined_one:
  assumes "confined sys ctx pre" "ok_but looked_at pre" "only no_exec pre" "only no_exec post"
  shows "exec_confined sys ctx (pre @ (exec_call ctx, x) # post)"
  unfolding exec_confined_def
proof (intro allI impI)
  fix pre' p av ev y post'
  assume eq: "pre @ (exec_call ctx, x) # post = pre' @ (Proc (Execve p av ev), y) # post'"
  have "(Proc (Execve p av ev), y) \<in> set (pre @ (exec_call ctx, x) # post)" by (simp only: eq) simp
  moreover have "(Proc (Execve p av ev), y) \<notin> set pre" "(Proc (Execve p av ev), y) \<notin> set post"
    using assms(3,4) by (simp_all add: only_no_execD)
  ultimately have same: "(Proc (Execve p av ev), y) = (exec_call ctx, x)" by simp
  have "(exec_call ctx, x) \<notin> set pre" "(exec_call ctx, x) \<notin> set post"
    using assms(3,4) by (simp_all only: only_no_execD not_False_eq_True)
  from append_Cons_eq_iff [OF this, of pre' post'] eq same have "pre = pre'" by simp
  with assms(1,2) same show "confined sys ctx pre' \<and> ok_but looked_at pre' \<and> Proc (Execve p av ev) = exec_call ctx"
    by simp
qed

lemma setup_done_confined: "setup_done sys ctx es \<Longrightarrow> exec_confined sys ctx es"
  unfolding setup_done_def using exec_confined_one [where post = "[]"] by auto

lemma setup_failed_confined:
  assumes "setup_failed sys ctx f es" and "only no_exec post"
  shows "exec_confined sys ctx (es @ post)"
proof (cases f)
  case Panicked
  with assms show ?thesis by (auto simp: setup_failed_def intro: exec_confined_none)
next
  case (Failed d)
  with assms(1) obtain pre ev where es: "es = pre @ [ev]" "ok_but looked_at pre" "only no_exec pre"
    and c: "no_exec (fst ev) \<or> fst ev = exec_call ctx \<and> confined sys ctx pre"
    by (auto simp: setup_failed_def)
  from c show ?thesis
  proof
    assume "no_exec (fst ev)"
    with es assms(2) show ?thesis by (auto intro: exec_confined_none)
  next
    assume "fst ev = exec_call ctx \<and> confined sys ctx pre"
    with es assms(2) exec_confined_one [of sys ctx pre post "snd ev"] show ?thesis by (cases ev) simp
  qed
qed

definition example_child :: child_context where
  "example_child = \<lparr>cc_req = example_request, cc_sync_read_fd = 5, cc_slave_fd = 6, cc_stderr_write_fd = 7,
     cc_err_pipe_write = 8\<rparr>"

lemmas child_code = child_run_def child_setup_def confine_def wait_for_mapping_def create_scratch_root_def
  scratch_root_path_def apply_ruleset_def probe_abi_version_def add_path_rule_def apply_rlimits_def
  drop_capabilities_def attach_stdio_def load_filter_def exec_target_def report_child_error_def
  map_error_def or_errno_def

lemmas child_run_defs = child_code example_child_def example_request_def

definition map_calls :: "i32 \<Rightarrow> u32 \<Rightarrow> u32 \<Rightarrow> call list" where
  "map_calls pid host_uid host_gid =
     [Fs (WriteNew (''/proc/'' @ dec_int (sint pid) @ ''/setgroups'') ''deny''),
      Fs (WriteNew (''/proc/'' @ dec_int (sint pid) @ ''/uid_map'') (''0 '' @ dec (unat host_uid) @ '' 1'' @ [newline])),
      Fs (WriteNew (''/proc/'' @ dec_int (sint pid) @ ''/gid_map'') (''0 '' @ dec (unat host_gid) @ '' 1'' @ [newline]))]"

text \<open>A prefix of the three writes, complete and successful or ended by the one that failed.\<close>

definition maps_written :: "i32 \<Rightarrow> u32 \<Rightarrow> u32 \<Rightarrow> event list \<Rightarrow> bool" where
  "maps_written pid host_uid host_gid es \<longleftrightarrow> calls_of es = map_calls pid host_uid host_gid \<and> all_ok es"

definition maps_failed :: "i32 \<Rightarrow> u32 \<Rightarrow> u32 \<Rightarrow> event list \<Rightarrow> bool" where
  "maps_failed pid host_uid host_gid es \<longleftrightarrow>
     es \<noteq> [] \<and> all_ok (butlast es) \<and> \<not> succeeded (last es) \<and>
     calls_of es = take (length es) (map_calls pid host_uid host_gid)"

lemma emits_maps:
  "emits (write_uid_gid_maps k pid u g) (\<lambda>_. maps_failed pid u g) (\<lambda>_. maps_written pid u g)"
  unfolding write_uid_gid_maps_def Let_def
  by (intro emits_rules) (simp_all add: maps_failed_def maps_written_def map_calls_def)

section \<open>Properties\<close>

text \<open>
  C1. Nothing runs unconfined: whatever the kernel answers, an \<open>execve\<close> in the child's trace, tried
  or done, comes after the barrier, the mounts, the Landlock restriction, the limits, the dropped
  capabilities, the descriptors, no-new-privileges and the seccomp filter, in this order and each
  with success, and it executes the request's program, arguments and environment.
\<close>

theorem exec_only_when_confined:
  "\<exists>es. trace (snd (child_run k sys ctx s)) = trace s @ es \<and> exec_confined sys ctx es"
proof (rule emits_both, rule emits_weaken [OF emits_child_run])
  show "setup_failed sys ctx Panicked es \<Longrightarrow> exec_confined sys ctx es" for es
    using setup_failed_confined [of sys ctx Panicked es "[]"] by simp
next
  fix r es
  assume "case r of Execed \<Rightarrow> setup_done sys ctx es | Exited_with c \<Rightarrow> c = 1 \<and> reported sys ctx es"
  then show "exec_confined sys ctx es"
    by (cases r) (auto simp: setup_done_confined reported_def intro!: setup_failed_confined)
qed

text \<open>
  C20. A failed setup is reported once and ends the process: when the child exits, it exits with 1, its
  last calls are the write of five bytes on the error pipe and \<open>_exit\<close>, and the bytes are a stage and an
  errno. The call just before is one of that stage and stopped the setup: it failed, or it is the
  barrier's read and was short, or the Landlock version and too old; no call before it failed, but those
  whose failure the code passes over. The errno is that of the call, if the system refused it; else it is
  EINVAL, for a call refused by the library, or the errno that the last call the system refused had left.
\<close>

theorem child_failure_reported:
  assumes "child_run k sys ctx s = (Inr (Exited_with c), t)"
  shows "c = 1 \<and> (\<exists>pre ev stage n w x. trace t = trace s @ pre @
      [ev, (Fd (WriteFd (cc_err_pipe_write ctx) (report_bytes stage n)), w), (Proc (ExitProcess 1), x)] \<and>
    ok_but looked_at pre \<and> child_stage_call sys ctx stage (fst ev) \<and> stopping ev \<and>
    errno_told n (last_errno s) (pre @ [ev]) \<and>
    (\<forall>m. snd ev = Inl (OsError m) \<longrightarrow> n = m))"
proof -
  obtain pre ev stage n w x where "c = 1" and "trace t = trace s @ pre @
      [ev, (Fd (WriteFd (cc_err_pipe_write ctx) (report_bytes stage n)), w), (Proc (ExitProcess 1), x)]"
    and "ok_but looked_at pre" and "child_stage_call sys ctx stage (fst ev)" and "stopping ev"
    and told: "errno_told n (last_errno s) (pre @ [ev])"
    by (rule child_run_exited [OF assms]) blast
  moreover from told have "\<forall>m. snd ev = Inl (OsError m) \<longrightarrow> n = m" by (auto simp: errno_told_def)
  ultimately show ?thesis by blast
qed

text \<open>A child whose second \<open>dup2\<close> is refused with EIO.\<close>

abbreviation refused_child :: "(unit + child_end) \<times> unit os" where
  "refused_child \<equiv> child_run (scripted (\<lambda>c. if c = Fd (Dup2 6 1) then Inl (OsError EIO)
     else Inr (done_ans\<lparr>ans_num := 8\<rparr>))) (\<lambda>_. 0) example_child fresh_os"

lemma refused_child_exits:
  "fst refused_child = Inr (Exited_with 1)"
  "\<exists>pre. trace (snd refused_child) = pre @ [(Fd (Dup2 6 1), Inl (OsError EIO)),
     (Fd (WriteFd 8 (report_bytes PtySlaveSetup EIO)), Inr (done_ans\<lparr>ans_num := 8\<rparr>)),
     (Proc (ExitProcess 1), Inr (done_ans\<lparr>ans_num := 8\<rparr>))]"
  by (simp_all add: run_defs child_run_defs mount_run)

theorem child_failure_reported_witness:
  "\<exists>pre ev stage n w x. trace (snd refused_child) = pre @
      [ev, (Fd (WriteFd 8 (report_bytes stage n)), w), (Proc (ExitProcess 1), x)] \<and>
    ev = (Fd (Dup2 6 1), Inl (OsError EIO)) \<and> child_stage_call (\<lambda>_. 0) example_child stage (fst ev) \<and> n = EIO"
proof -
  have r: "refused_child = (Inr (Exited_with 1), snd refused_child)"
    using refused_child_exits(1) by (metis prod.collapse)
  have e: "cc_err_pipe_write example_child = 8" "trace fresh_os = []"
    by (simp_all add: example_child_def fresh_os_def)
  obtain pre ev stage n w x where
    tr: "trace (snd refused_child) = [] @ pre @ [ev, (Fd (WriteFd 8 (report_bytes stage n)), w), (Proc (ExitProcess 1), x)]"
    and c: "child_stage_call (\<lambda>_. 0) example_child stage (fst ev)" "\<forall>m. snd ev = Inl (OsError m) \<longrightarrow> n = m"
    using child_failure_reported [OF r] unfolding e by blast
  with refused_child_exits(2) have "ev = (Fd (Dup2 6 1), Inl (OsError EIO))" by (auto simp: append_eq_append_conv2)
  with tr c show ?thesis by (intro exI [of _ pre] exI [of _ ev] exI [of _ stage] exI [of _ n] exI [of _ w] exI [of _ x]) simp
qed

text \<open>
  The maps are written in the one order the kernel accepts: setgroups denied first, then the
  uid map, then the gid map, of the child's process and with the host's ids; success means that all
  three were written, a failure that the writes stopped at the one that failed.
\<close>

theorem maps_in_order:
  "\<exists>es. trace (snd (write_uid_gid_maps k pid host_uid host_gid s)) = trace s @ es \<and>
     (if fst (write_uid_gid_maps k pid host_uid host_gid s) = Inr ()
      then maps_written pid host_uid host_gid es else maps_failed pid host_uid host_gid es)"
proof (cases "write_uid_gid_maps k pid host_uid host_gid s")
  case (Pair r t)
  obtain es where "trace t = trace s @ es" and
    "case r of Inl _ \<Rightarrow> maps_failed pid host_uid host_gid es | Inr _ \<Rightarrow> maps_written pid host_uid host_gid es"
    by (rule emitsE [OF emits_maps Pair])
  with Pair show ?thesis by (cases r) auto
qed

end
