(* ===== verification/Pty.thy ===== *)
theory Pty
  imports Steps
begin

text \<open>
  \<^verbatim>\<open>src/pty.rs\<close>: the pseudo terminal pair. A descriptor owned by a local value is closed when the
  value goes out of scope on an early return (\<open>drop_fds\<close>).
\<close>

section \<open>Definitions\<close>

record pty_pair =
  pty_master :: fd
  pty_slave :: fd

definition close_all :: "'w kernel \<Rightarrow> fd list \<Rightarrow> ('w, 'e, unit) io" where
  "close_all k fds = for_each fds (\<lambda>f. call_ignore k (Fd (CloseFd f)))"

text \<open>\<open>or_close k fds m\<close>: on failure of \<open>m\<close> the descriptors owned so far are closed.\<close>

definition or_close :: "'w kernel \<Rightarrow> fd list \<Rightarrow> ('w, 'e, 'a) io \<Rightarrow> ('w, 'e, 'a) io" where
  "or_close k fds m =
     bnd (attempt m) (\<lambda>r. case r of Inr x \<Rightarrow> ret x | Inl e \<Rightarrow> bnd (close_all k fds) (\<lambda>_. throw e))"

text \<open>
  The slave is still a bare descriptor while the window size is set: an error there closes the master
  only.
\<close>

definition open_pty :: "'w kernel \<Rightarrow> ('w, sandbox_error, pty_pair) io" where
  "open_pty k =
     bnd (call_nix k (Pty (PosixOpenpt {O_RDWR, O_NOCTTY, O_CLOEXEC, O_NONBLOCK})) PtyOpenFailed) (\<lambda>m.
     let master = ans_num m in
     or_close k [master]
       (bnd (call_nix k (Pty (Grantpt master)) PtyOpenFailed) (\<lambda>_.
        bnd (call_nix k (Pty (Unlockpt master)) PtyOpenFailed) (\<lambda>_.
        bnd (call_nix k (Pty (Ptsname master)) PtyOpenFailed) (\<lambda>name.
        bnd (call_nix k (Fd (OpenFd (string_at (ans_data name)) {O_RDWR, O_NOCTTY, O_CLOEXEC} 0)) PtyOpenFailed) (\<lambda>s.
        bnd (call_last k (Pty (SetWinsize master 50 220 0 0)) PtyOpenFailed) (\<lambda>_.
        ret \<lparr>pty_master = master, pty_slave = ans_num s\<rparr>)))))))"

section \<open>Lemmas\<close>

lemma emits_close_all:
  "emits (close_all k fds) E (\<lambda>_ es. calls_of es = map (\<lambda>f. Fd (CloseFd f)) fds)"
  unfolding close_all_def for_each_def
proof (induction fds arbitrary: E)
  case Nil
  show ?case unfolding list.map by (intro emits_rules) simp
next
  case (Cons f fds)
  show ?case
    unfolding list.map seq_all.simps
    by (rule emits_bnd, rule emits_call_ignore, rule emits_weaken, rule Cons.IH) (assumption, simp)
qed

lemma emits_or_close [emits_rules]:
  assumes "emits m (\<lambda>e es. \<forall>es'. calls_of es' = map (\<lambda>f. Fd (CloseFd f)) fds \<longrightarrow> E e (es @ es')) Q"
  shows "emits (or_close k fds m) E Q"
  unfolding or_close_def
proof (rule emits_bnd, rule emits_attempt, rule emits_weaken [OF assms])
  fix e es
  assume e: "\<forall>es'. calls_of es' = map (\<lambda>f. Fd (CloseFd f)) fds \<longrightarrow> E e (es @ es')"
  show "emits (case Inl e of Inr x \<Rightarrow> ret x | Inl e \<Rightarrow> bnd (close_all k fds) (\<lambda>_. throw e))
      (\<lambda>e es'. E e (es @ es')) (\<lambda>y es'. Q y (es @ es'))"
    using e by (auto intro!: emits_bnd emits_throw
      intro: emits_weaken [OF emits_close_all [where E = "\<lambda>_ _. False"]])
qed (simp add: emits_def)

text \<open>The calls of \<open>open_pty\<close> for a master, the slave's name and the slave.\<close>

definition pty_calls :: "fd \<Rightarrow> path \<Rightarrow> call list" where
  "pty_calls m name =
     [Pty (PosixOpenpt {O_RDWR, O_NOCTTY, O_CLOEXEC, O_NONBLOCK}), Pty (Grantpt m), Pty (Unlockpt m),
      Pty (Ptsname m), Fd (OpenFd name {O_RDWR, O_NOCTTY, O_CLOEXEC} 0), Pty (SetWinsize m 50 220 0 0)]"

definition pty_opened :: "pty_pair \<Rightarrow> event list \<Rightarrow> bool" where
  "pty_opened p es \<longleftrightarrow>
     (\<exists>name a nm s. calls_of es = pty_calls (pty_master p) name \<and> all_ok es \<and>
        es ! 0 = (Pty (PosixOpenpt {O_RDWR, O_NOCTTY, O_CLOEXEC, O_NONBLOCK}), Inr a) \<and> ans_num a = pty_master p \<and>
        es ! 3 = (Pty (Ptsname (pty_master p)), Inr nm) \<and> name = string_at (ans_data nm) \<and>
        es ! 4 = (Fd (OpenFd name {O_RDWR, O_NOCTTY, O_CLOEXEC} 0), Inr s) \<and> ans_num s = pty_slave p)"

text \<open>A failure closes the master if it was opened, as the last call.\<close>

definition pty_failed :: "sandbox_error \<Rightarrow> event list \<Rightarrow> bool" where
  "pty_failed e es \<longleftrightarrow>
     (\<exists>n pre c x post. e = PtyOpenFailed n \<and> (\<forall>m. x = OsError m \<longrightarrow> n = m) \<and> all_ok pre \<and>
        es = pre @ (c, Inl x) # post \<and>
        calls_of post = (case pre of (_, Inr a) # _ \<Rightarrow> [Fd (CloseFd (ans_num a))] | _ \<Rightarrow> []))"

lemma pty_failed_first: "(\<And>m. x = OsError m \<Longrightarrow> n = m) \<Longrightarrow> pty_failed (PtyOpenFailed n) [(c, Inl x)]"
  unfolding pty_failed_def by (intro exI [of _ n] exI [of _ "[]"]) auto

lemma pty_failed_later:
  assumes "\<And>m. x = OsError m \<Longrightarrow> n = m" and "all_ok rest"
    and "calls_of es' = map (\<lambda>f. Fd (CloseFd f)) [ans_num a]"
  shows "pty_failed (PtyOpenFailed n) ((c, Inr a) # rest @ (c', Inl x) # es')"
  unfolding pty_failed_def using assms
  by (intro exI [of _ n] exI [of _ "(c, Inr a) # rest"]) auto

lemmas pty_failedI = pty_failed_first
  pty_failed_later [where rest = "[]", unfolded append_Nil]
  pty_failed_later [where rest = "[e1]" for e1, unfolded append_Nil append_Cons]
  pty_failed_later [where rest = "[e1, e2]" for e1 e2, unfolded append_Nil append_Cons]
  pty_failed_later [where rest = "[e1, e2, e3]" for e1 e2 e3, unfolded append_Nil append_Cons]
  pty_failed_later [where rest = "[e1, e2, e3, e4]" for e1 e2 e3 e4, unfolded append_Nil append_Cons]

lemma emits_open_pty: "emits (open_pty k) pty_failed pty_opened"
  unfolding open_pty_def Let_def
  by (intro emits_rules allI impI; (simp only: append_Nil append_Cons append_assoc)?; (rule pty_failedI)?)
    (auto simp: pty_opened_def pty_calls_def nix_errno_def)

section \<open>Properties\<close>

text \<open>
  C40. A terminal that is handed out is complete: the master was opened, granted and unlocked, the slave
  opened by the name the kernel gave for this master, without becoming the controlling terminal and
  closed on exec, and the window size set. When a step fails, no step before it did, the error carries
  its errno, and the master, once opened, is closed; a slave already opened is not.
\<close>

theorem open_pty_complete:
  "\<exists>es. trace (snd (open_pty k s)) = trace s @ es \<and>
     (case fst (open_pty k s) of Inl e \<Rightarrow> pty_failed e es | Inr p \<Rightarrow> pty_opened p es)"
proof (cases "open_pty k s")
  case (Pair r t)
  show ?thesis using emitsE [OF emits_open_pty Pair] Pair by (metis fst_conv snd_conv)
qed

end
