(* ===== verification/StatusFile.thy ===== *)
theory StatusFile
  imports Steps
begin

text \<open>
  The signal handler of \<^verbatim>\<open>src/fork_server.rs\<close> (\<open>sigchld_handler\<close>), which prints process ids and wait
  statuses into fixed buffers without the allocator. A write outside a buffer is a panic, the value
  None; so is the negation of the least 32-bit number in a build with overflow checks (\<open>ovf\<close>, on in Cargo's
  dev profile), which wraps without them. \<open>waitpid\<close> answers the process id and, as its data, the four bytes of the status. The loop over
  the exited children runs on fuel. The reference is \<open>dec_int\<close>.
\<close>

section \<open>Definitions\<close>

subsection \<open>Buffers\<close>

definition put :: "u8 list \<Rightarrow> nat \<Rightarrow> u8 \<Rightarrow> u8 list option" where
  "put buf i v = (if i < length buf then Some (buf[i := v]) else None)"

definition swap_at :: "u8 list \<Rightarrow> nat \<Rightarrow> nat \<Rightarrow> u8 list option" where
  "swap_at buf i j =
     (if i < length buf \<and> j < length buf then Some (buf[i := buf ! j, j := buf ! i]) else None)"

text \<open>The digits of a positive number, the last first, from position \<open>n\<close> on.\<close>

fun digits_loop :: "nat \<Rightarrow> u8 list \<Rightarrow> nat \<Rightarrow> (u8 list \<times> nat) option" where
  "digits_loop t buf n =
     (if t = 0 then Some (buf, n)
      else do { buf \<leftarrow> put buf n (48 + word_of_nat (t mod 10)); digits_loop (t div 10) buf (Suc n) })"

declare digits_loop.simps [simp del]

text \<open>The copy of the first \<open>j\<close> digits to \<open>buf\<close> from position \<open>len\<close> on, in reverse.\<close>

primrec copy_rev :: "u8 list \<Rightarrow> nat \<Rightarrow> u8 list \<Rightarrow> nat \<Rightarrow> (u8 list \<times> nat) option" where
  "copy_rev digits 0 buf len = Some (buf, len)"
| "copy_rev digits (Suc j) buf len =
     (if j < length digits
      then do { buf \<leftarrow> put buf len (digits ! j); copy_rev digits j buf (Suc len) }
      else None)"

primrec swaps :: "nat \<Rightarrow> nat \<Rightarrow> u8 list \<Rightarrow> u8 list option" where
  "swaps s_len 0 buf = Some buf"
| "swaps s_len (Suc i) buf = do { buf \<leftarrow> swaps s_len i buf; swap_at buf i (s_len - 1 - i) }"

definition status_prefix :: string where
  "status_prefix = ''/tmp/sandbox-status-''"

definition path_buffer :: "i32 \<Rightarrow> u8 list option" where
  "path_buffer pid =
     (let path_buf = bytes_of status_prefix @ replicate (64 - length status_prefix) 0;
          len = length status_prefix;
          digits = replicate 16 0
      in do { (digits, d_len) \<leftarrow>
                (if pid = 0 then do { digits \<leftarrow> put digits 0 48; Some (digits, 1) }
                 else digits_loop (nat (sint pid)) digits 0);
              (path_buf, len) \<leftarrow> copy_rev digits d_len path_buf len;
              put path_buf len 0 })"

definition neg_i32 :: "bool \<Rightarrow> i32 \<Rightarrow> i32 option" where
  "neg_i32 ovf x = (if ovf \<and> sint x = - (2 ^ 31) then None else Some (- x))"

definition status_text :: "bool \<Rightarrow> i32 \<Rightarrow> u8 list option" where
  "status_text ovf status =
     (let status_buf = replicate 16 0 in
      do { (status_buf, s_len) \<leftarrow>
             (if status = 0 then do { status_buf \<leftarrow> put status_buf 0 48; Some (status_buf, 1) }
              else
                let is_neg = sint status < 0
                in do { temp_status \<leftarrow> (if is_neg then neg_i32 ovf status else Some status);
                        (status_buf, s_len) \<leftarrow> digits_loop (nat (sint temp_status)) status_buf 0;
                        if is_neg then do { status_buf \<leftarrow> put status_buf s_len 45; Some (status_buf, Suc s_len) }
                        else Some (status_buf, s_len) });
           status_buf \<leftarrow> swaps s_len (s_len div 2) status_buf;
           status_buf \<leftarrow> put status_buf s_len 10;
           Some (take (Suc s_len) status_buf) })"

definition c_string :: "u8 list \<Rightarrow> string" where
  "c_string buf = string_at (takeWhile (\<lambda>b. b \<noteq> 0) buf)"

subsection \<open>The handler\<close>

definition write_status :: "bool \<Rightarrow> 'w kernel \<Rightarrow> i32 \<Rightarrow> i32 \<Rightarrow> ('w, unit, unit) io" where
  "write_status ovf k pid status =
     (case path_buffer pid of
        None \<Rightarrow> throw ()
      | Some path_buf \<Rightarrow>
          bnd (call_try k (Fd (OpenFd (c_string path_buf) {O_WRONLY, O_CREAT, O_TRUNC, O_CLOEXEC} 0x1A4))) (\<lambda>r.
          case r of
            Inl _ \<Rightarrow> ret ()
          | Inr fd \<Rightarrow>
              (case status_text ovf status of
                 None \<Rightarrow> throw ()
               | Some text \<Rightarrow>
                   bnd (call_ignore k (Fd (WriteFd (ans_num fd) text))) (\<lambda>_.
                   call_ignore k (Fd (CloseFd (ans_num fd)))))))"

text \<open>True when there was no further child, False when the fuel ended first.\<close>

primrec reap_loop :: "bool \<Rightarrow> 'w kernel \<Rightarrow> nat \<Rightarrow> ('w, unit, bool) io" where
  "reap_loop ovf k 0 = ret False"
| "reap_loop ovf k (Suc n) =
     bnd (call_try k (Proc Waitpid)) (\<lambda>r.
     let pid = (case r of Inr a \<Rightarrow> word_of_int (ans_num a) | Inl _ \<Rightarrow> - 1) :: i32;
         status = (case r of Inr a \<Rightarrow> from_le (ans_data a) | Inl _ \<Rightarrow> 0) :: i32
     in if sint pid \<le> 0 then ret True
        else bnd (write_status ovf k pid status) (\<lambda>_. reap_loop ovf k n))"

definition set_errno :: "errno \<Rightarrow> ('w, 'e, unit) io" where
  "set_errno e s = (Inr (), s\<lparr>last_errno := e\<rparr>)"

definition sigchld_handler :: "bool \<Rightarrow> 'w kernel \<Rightarrow> nat \<Rightarrow> ('w, unit, bool) io" where
  "sigchld_handler ovf k n =
     bnd get_errno (\<lambda>saved_errno.
     bnd (reap_loop ovf k n) (\<lambda>done.
     bnd (set_errno saved_errno) (\<lambda>_. ret done)))"

section \<open>Lemmas on the buffers\<close>

lemma byte_of_digit: "d < 10 \<Longrightarrow> byte_of (digit_char d) = 48 + word_of_nat d"
  by (simp add: byte_of_def digit_char_def)

lemma put_app: "length xs = n \<Longrightarrow> put (xs @ y # ys) n v = Some (xs @ v # ys)"
  by (auto simp: put_def)

lemma digits_loop_dec:
  assumes "0 < t" and "length pre = n" and "length mid = length (dec t)"
  shows "digits_loop t (pre @ mid @ post) n = Some (pre @ bytes_of (rev (dec t)) @ post, n + length (dec t))"
  using assms
proof (induction t arbitrary: pre mid n rule: less_induct)
  case (less t)
  from less.prems(3) obtain m mid' where mid: "mid = m # mid'"
    by (cases mid) (auto simp: dec.simps [of t] split: if_splits)
  have step: "digits_loop t (pre @ mid @ post) n =
      digits_loop (t div 10) ((pre @ [48 + word_of_nat (t mod 10)]) @ mid' @ post) (Suc n)"
    using less.prems by (subst digits_loop.simps) (simp add: mid put_app)
  show ?case
  proof (cases "t < 10")
    case True
    then have "dec t = [digit_char t]" by (simp add: dec.simps)
    with True less.prems(3) show ?thesis unfolding step
      by (subst digits_loop.simps) (simp add: mid byte_of_digit)
  next
    case False
    then have d: "dec t = dec (t div 10) @ [digit_char (t mod 10)]" by (subst dec.simps) simp
    have "length mid' = length (dec (t div 10))" using less.prems(3) d mid by simp
    with False less.IH [of "t div 10" "pre @ [48 + word_of_nat (t mod 10)]" "Suc n" mid'] less.prems(2)
    show ?thesis unfolding step d by (simp add: byte_of_digit)
  qed
qed

lemma length_dec: "n < 10 ^ Suc k \<Longrightarrow> length (dec n) \<le> Suc k"
proof (induction k arbitrary: n)
  case 0
  then show ?case by (simp add: dec.simps)
next
  case (Suc k)
  show ?case
  proof (cases "n < 10")
    case False
    have "n div 10 < 10 ^ Suc k" using Suc.prems by simp
    from Suc.IH [OF this] False show ?thesis by (subst dec.simps) simp
  qed (simp add: dec.simps)
qed

lemma copy_rev_app:
  assumes "j \<le> length digits" and "length pre = len" and "length mid = j"
  shows "copy_rev digits j (pre @ mid @ post) len = Some (pre @ rev (take j digits) @ post, len + j)"
  using assms
proof (induction j arbitrary: pre mid len)
  case (Suc j)
  then obtain m mid' where mid: "mid = m # mid'" by (cases mid) auto
  with Suc.prems Suc.IH [of "pre @ [digits ! j]" "Suc len" mid'] show ?case
    by (simp add: put_app take_Suc_conv_app_nth)
qed simp

lemma swaps_nth:
  assumes "m \<le> s div 2" and "s \<le> length buf"
  shows "\<exists>b. swaps s m buf = Some b \<and> length b = length buf \<and>
    (\<forall>x < length buf. b ! x = (if x < s \<and> (x < m \<or> s - m \<le> x) then buf ! (s - 1 - x) else buf ! x))"
  using assms(1)
proof (induction m)
  case 0
  show ?case by (intro exI [of _ buf]) auto
next
  case (Suc m)
  then obtain b where b: "swaps s m buf = Some b" "length b = length buf" and
    nth: "\<forall>x < length buf. b ! x = (if x < s \<and> (x < m \<or> s - m \<le> x) then buf ! (s - 1 - x) else buf ! x)"
    by auto
  have lt: "m < length buf" "s - 1 - m < length buf" "m < s - 1 - m" "s - 1 - m < s"
    using Suc.prems assms(2) by auto
  have m: "b ! m = buf ! m" "b ! (s - 1 - m) = buf ! (s - 1 - m)" using nth lt by auto
  have "swaps s (Suc m) buf = Some (b[m := b ! (s - 1 - m), s - 1 - m := b ! m])"
    using b lt by (simp add: swap_at_def)
  moreover have "\<forall>x < length buf. b[m := b ! (s - 1 - m), s - 1 - m := b ! m] ! x =
      (if x < s \<and> (x < Suc m \<or> s - Suc m \<le> x) then buf ! (s - 1 - x) else buf ! x)"
  proof (intro allI impI)
    fix x assume x: "x < length buf"
    consider "x = m" | "x = s - 1 - m" | "x \<noteq> m" "x \<noteq> s - 1 - m" by blast
    then show "b[m := b ! (s - 1 - m), s - 1 - m := b ! m] ! x =
      (if x < s \<and> (x < Suc m \<or> s - Suc m \<le> x) then buf ! (s - 1 - x) else buf ! x)"
      by cases (use lt m x b nth in \<open>auto simp: nth_list_update\<close>)
  qed
  ultimately show ?case using b by simp
qed

lemma swaps_rev:
  assumes "length xs = s" shows "swaps s (s div 2) (xs @ ys) = Some (rev xs @ ys)"
proof -
  obtain b where b: "swaps s (s div 2) (xs @ ys) = Some b" "length b = length (xs @ ys)" and
    nth: "\<forall>x < length (xs @ ys). b ! x =
      (if x < s \<and> (x < s div 2 \<or> s - s div 2 \<le> x) then (xs @ ys) ! (s - 1 - x) else (xs @ ys) ! x)"
    using swaps_nth [of "s div 2" s "xs @ ys"] assms by auto
  have "b = rev xs @ ys"
  proof (rule nth_equalityI)
    fix x assume x: "x < length b"
    show "b ! x = (rev xs @ ys) ! x"
    proof (cases "x < s")
      case True
      have lt: "x < length (xs @ ys)" using x b(2) by simp
      have "b ! x = (xs @ ys) ! (s - 1 - x)"
      proof (cases "x < s div 2 \<or> s - s div 2 \<le> x")
        case outer: True
        then show ?thesis using nth lt True by simp
      next
        case inner: False
        then have "s - 1 - x = x" using True by linarith
        moreover have "b ! x = (xs @ ys) ! x" using nth lt inner by simp
        ultimately show ?thesis by simp
      qed
      moreover have "s - 1 - x < length xs" using True assms by simp
      ultimately show ?thesis using True assms by (simp add: nth_append rev_nth)
    next
      case False
      with nth [rule_format, of x] x b(2) assms show ?thesis by (simp add: nth_append)
    qed
  qed (use b assms in simp)
  with b show ?thesis by simp
qed

lemma replicate_split: "a \<le> n \<Longrightarrow> replicate n x = replicate a x @ replicate (n - a) x"
  by (metis le_add_diff_inverse replicate_add)

lemma i32_dec_length:
  fixes n :: nat assumes "n \<le> 2 ^ 31" shows "length (dec n) \<le> 10"
  using assms length_dec [of n 9] by simp

lemma sint_i32_bounds: "- (2 ^ 31) \<le> sint (w :: i32)" "sint (w :: i32) < 2 ^ 31"
  using sint_greater_eq [of w] sint_less [of w] by simp_all

lemma digits_of_dec:
  assumes "0 < n" and "n \<le> 2 ^ 31"
  shows "digits_loop n (replicate 16 0) 0 =
    Some (bytes_of (rev (dec n)) @ replicate (16 - length (dec n)) 0, length (dec n))"
proof -
  have l: "length (dec n) \<le> 16" using i32_dec_length [OF assms(2)] by simp
  show ?thesis
    using digits_loop_dec [OF assms(1), of "[]" 0 "replicate (length (dec n)) 0" "replicate (16 - length (dec n)) 0"]
      replicate_split [OF l, of "0 :: u8"] by simp
qed

lemma byte_nonzero: "byte_of c = 0 \<longleftrightarrow> c = NUL"
proof -
  have "byte_of NUL = 0" by (simp add: byte_of_def NUL_def)
  then show ?thesis by (metis char_at_byte_of)
qed

lemma NUL_no_digit: "\<not> is_digit NUL" by (simp add: is_digit_def NUL_def)

lemma c_string_buffer:
  assumes "NUL \<notin> set s" and "0 < n" shows "c_string (bytes_of s @ replicate n 0) = s"
proof -
  have "takeWhile (\<lambda>b. b \<noteq> 0) (bytes_of s @ replicate n 0) = bytes_of s"
    using assms by (subst takeWhile_append2) (auto simp: byte_nonzero gr0_conv_Suc)
  then show ?thesis by (simp add: c_string_def)
qed

lemma path_buffer_dec:
  fixes pid :: i32
  assumes "0 < sint pid"
  shows "\<exists>buf. path_buffer pid = Some buf \<and> c_string buf = status_prefix @ dec_int (sint pid)"
proof -
  define n where "n = nat (sint pid)"
  have n: "0 < n" "n \<le> 2 ^ 31" using assms sint_i32_bounds(2) [of pid] by (simp_all add: n_def)
  have l: "length (dec n) \<le> 10" using n(2) by (rule i32_dec_length)
  have pid: "pid \<noteq> 0" using assms by auto
  let ?pre = "bytes_of status_prefix"
  have pre: "length status_prefix = 20" by (simp add: status_prefix_def)
  have "copy_rev (bytes_of (rev (dec n)) @ replicate (16 - length (dec n)) 0) (length (dec n))
      (?pre @ replicate (length (dec n)) 0 @ replicate (44 - length (dec n)) 0) 20 =
    Some (?pre @ bytes_of (dec n) @ replicate (44 - length (dec n)) 0, 20 + length (dec n))"
    by (subst copy_rev_app) (simp_all add: pre rev_map)
  moreover have "replicate 44 (0 :: u8) = replicate (length (dec n)) 0 @ replicate (44 - length (dec n)) 0"
    using l by (intro replicate_split) simp
  moreover have "put (?pre @ bytes_of (dec n) @ replicate (44 - length (dec n)) 0) (20 + length (dec n)) 0 =
      Some (?pre @ bytes_of (dec n) @ replicate (44 - length (dec n)) 0)"
  proof -
    obtain z where "44 - length (dec n) = Suc z" using l by (cases "44 - length (dec n)") auto
    then show ?thesis using put_app [of "?pre @ bytes_of (dec n)" "20 + length (dec n)"] by (simp add: pre)
  qed
  ultimately have "path_buffer pid = Some (bytes_of (status_prefix @ dec n) @ replicate (44 - length (dec n)) 0)"
    using pid digits_of_dec [OF n] by (simp add: path_buffer_def Let_def pre n_def [symmetric])
  moreover have "c_string (bytes_of (status_prefix @ dec n) @ replicate (44 - length (dec n)) 0) = status_prefix @ dec n"
  proof (rule c_string_buffer)
    show "NUL \<notin> set (status_prefix @ dec n)"
      using dec_all_digits [of NUL n] NUL_no_digit by (auto simp: status_prefix_def NUL_def)
  qed (use l in simp)
  ultimately show ?thesis using assms by (simp add: dec_int_def n_def)
qed

lemma sint_zero_iff: "sint (w :: i32) = 0 \<longleftrightarrow> w = 0"
  by (simp add: signed_eq_0_iff)

lemma sint_uminus_i32:
  fixes w :: i32 assumes "sint w \<noteq> - (2 ^ 31)" shows "sint (- w) = - sint w"
proof -
  have "- w = word_of_int (- sint w)" by simp
  then have "sint (- w) = signed_take_bit 31 (- sint w)" by (simp only: sint_sbintrunc') simp
  also have "\<dots> = - sint w"
    using assms sint_greater_eq [of w] sint_less [of w] by (intro signed_take_bit_int_eq_self) simp_all
  finally show ?thesis .
qed

lemma min_i32: "sint (w :: i32) = - (2 ^ 31) \<Longrightarrow> w = - (2 ^ 31)"
  by (rule signed_word_eqI) simp

text \<open>The end of \<open>status_text\<close>: the buffer turned round and the line feed.\<close>

lemma finish_text:
  assumes "length xs < 16"
  shows "do { buf \<leftarrow> swaps (length xs) (length xs div 2) (xs @ replicate (16 - length xs) 0);
              buf \<leftarrow> put buf (length xs) 10; Some (take (Suc (length xs)) buf) } = Some (rev xs @ [10])"
proof -
  obtain z where "16 - length xs = Suc z" using assms by (cases "16 - length xs") auto
  then show ?thesis by (simp add: swaps_rev put_app)
qed

lemma byte_newline: "byte_of newline = 10" by (simp add: byte_of_def newline_def)

lemma byte_zero: "byte_of CHR ''0'' = 48" by (simp add: byte_of_def)

lemma byte_minus: "byte_of CHR ''-'' = 45" by (simp add: byte_of_def)

lemma status_text_dec:
  fixes status :: i32
  assumes "sint status \<noteq> - (2 ^ 31)"
  shows "status_text ovf status = Some (bytes_of (dec_int (sint status) @ [newline]))"
proof -
  have negated: "neg_i32 ovf status = Some (- status)" using assms by (simp add: neg_i32_def)
  have rep16: "replicate 16 (0 :: u8) = [] @ 0 # replicate 15 0" by (simp add: numeral_eq_Suc)
  consider (zero) "status = 0" | (pos) "0 < sint status" | (neg) "sint status < 0"
    using sint_zero_iff [of status] by linarith
  then show ?thesis
  proof cases
    case zero
    have "dec 0 = ''0''" by code_simp
    then have "dec_int (sint status) = ''0''" using \<open>status = 0\<close> by (simp add: dec_int_def)
    moreover have "put (replicate 16 0) 0 48 = Some ([48] @ replicate 15 0)"
      unfolding rep16 by (subst put_app) simp_all
    ultimately show ?thesis
      using zero finish_text [of "[48]"] by (simp add: status_text_def Let_def byte_newline byte_zero)
  next
    case pos
    define n where "n = nat (sint status)"
    have n: "0 < n" "n \<le> 2 ^ 31" using pos sint_i32_bounds(2) [of status] by (simp_all add: n_def)
    have ne: "status \<noteq> 0" using pos by auto
    have l: "length (bytes_of (rev (dec n))) < 16" using i32_dec_length [OF n(2)] by simp
    show ?thesis
      using ne pos digits_of_dec [OF n] finish_text [OF l]
      by (simp add: status_text_def Let_def n_def [symmetric] dec_int_def byte_newline rev_map [symmetric])
  next
    case neg
    define n where "n = nat (- sint status)"
    have n: "0 < n" "n \<le> 2 ^ 31" using neg sint_i32_bounds(1) [of status] by (simp_all add: n_def)
    have ne: "status \<noteq> 0" using neg by auto
    have "sint (- status) = - sint status" using assms by (rule sint_uminus_i32)
    then have temp: "nat (sint (- status)) = n" by (simp add: n_def)
    have l10: "length (dec n) \<le> 10" using i32_dec_length [OF n(2)] .
    then obtain z where z: "16 - length (dec n) = Suc z" by (cases "16 - length (dec n)") auto
    then have z': "15 - length (dec n) = z" by simp
    have "put (bytes_of (rev (dec n)) @ replicate (16 - length (dec n)) 0) (length (dec n)) 45 =
        Some ((bytes_of (rev (dec n)) @ [45]) @ replicate z 0)"
      unfolding z by (simp add: put_app)
    then show ?thesis
      using ne neg digits_of_dec [OF n] finish_text [of "bytes_of (rev (dec n)) @ [45]"] l10
      by (simp add: status_text_def Let_def negated temp n_def [symmetric] dec_int_def byte_newline byte_minus z' rev_map [symmetric])
  qed
qed

lemma status_text_min:
  "status_text False (- 2147483648) = Some [byte_of CHR ''-'', byte_of newline]"
  "status_text True (- 2147483648) = None"
  by code_simp+

text \<open>The line of a status; the least 32-bit number, whose negation wraps, has only its sign.\<close>

definition status_line :: "i32 \<Rightarrow> string" where
  "status_line status =
     (if sint status = - (2 ^ 31) then [CHR ''-'', newline] else dec_int (sint status) @ [newline])"

lemma status_text_line:
  "status_text ovf status =
     (if ovf \<and> sint status = - (2 ^ 31) then None else Some (bytes_of (status_line status)))"
  using min_i32 [of status] by (cases ovf) (auto simp: status_line_def status_text_dec status_text_min)

section \<open>The handler's events\<close>

definition status_path :: "i32 \<Rightarrow> path" where
  "status_path pid = status_prefix @ dec_int (sint pid)"

definition file_events :: "i32 \<Rightarrow> i32 \<Rightarrow> event list \<Rightarrow> bool" where
  "file_events pid status es \<longleftrightarrow>
     (\<exists>r rest. es = (Fd (OpenFd (status_path pid) {O_WRONLY, O_CREAT, O_TRUNC, O_CLOEXEC} 0x1A4), r) # rest \<and>
        calls_of rest = (case r of Inl _ \<Rightarrow> []
          | Inr fd \<Rightarrow> [Fd (WriteFd (ans_num fd) (bytes_of (status_line status))), Fd (CloseFd (ans_num fd))]))"

text \<open>One exited child: its answer, then its file.\<close>

definition child_events :: "event list \<Rightarrow> bool" where
  "child_events es \<longleftrightarrow>
     (\<exists>a rest. es = (Proc Waitpid, Inr a) # rest \<and> 0 < sint (word_of_int (ans_num a) :: i32) \<and>
        file_events (word_of_int (ans_num a)) (from_le (ans_data a)) rest)"

definition no_child :: "reply \<Rightarrow> bool" where
  "no_child r \<longleftrightarrow> (case r of Inl _ \<Rightarrow> True | Inr a \<Rightarrow> sint (word_of_int (ans_num a) :: i32) \<le> 0)"

definition reaped :: "nat \<Rightarrow> bool \<Rightarrow> event list \<Rightarrow> bool" where
  "reaped n finished es \<longleftrightarrow>
     (\<exists>rounds fin. es = concat rounds @ fin \<and> list_all child_events rounds \<and>
        (if finished then length rounds < n \<and> (\<exists>r. no_child r \<and> fin = [(Proc Waitpid, r)])
         else length rounds = n \<and> fin = []))"

text \<open>
  The one panic: overflow checks are on, the last child's status is the least 32-bit number and its file
  could be opened.
\<close>

definition negation_panic :: "bool \<Rightarrow> i32 \<Rightarrow> i32 \<Rightarrow> event list \<Rightarrow> bool" where
  "negation_panic ovf pid status es \<longleftrightarrow>
     ovf \<and> sint status = - (2 ^ 31) \<and>
     (\<exists>a. es = [(Fd (OpenFd (status_path pid) {O_WRONLY, O_CREAT, O_TRUNC, O_CLOEXEC} 0x1A4), Inr a)])"

definition reap_panicked :: "bool \<Rightarrow> event list \<Rightarrow> bool" where
  "reap_panicked ovf es \<longleftrightarrow>
     (\<exists>rounds a fin. es = concat rounds @ (Proc Waitpid, Inr a) # fin \<and> list_all child_events rounds \<and>
        negation_panic ovf (word_of_int (ans_num a)) (from_le (ans_data a)) fin)"

lemma emits_write_status:
  assumes "0 < sint pid"
  shows "emits (write_status ovf k pid status) (\<lambda>_. negation_panic ovf pid status) (\<lambda>_. file_events pid status)"
proof -
  obtain buf where buf: "path_buffer pid = Some buf" "c_string buf = status_path pid"
    using path_buffer_dec [OF assms] by (auto simp: status_path_def)
  show ?thesis
    unfolding write_status_def buf(1) option.case buf(2) status_text_line
    by (intro emits_rules) (auto simp: file_events_def negation_panic_def split: sum.splits intro!: emits_rules)
qed

lemma reap_panicked_Suc:
  "child_events es \<Longrightarrow> reap_panicked ovf es' \<Longrightarrow> reap_panicked ovf (es @ es')"
  unfolding reap_panicked_def by (elim exE, rule_tac x = "es # rounds" in exI) auto

lemma reaped_Suc:
  assumes "child_events (ev # es)" and "reaped n d es'"
  shows "reaped (Suc n) d (ev # es @ es')"
proof -
  from assms(2) obtain rounds fin where "es' = concat rounds @ fin" "list_all child_events rounds"
    "if d then length rounds < n \<and> (\<exists>r. no_child r \<and> fin = [(Proc Waitpid, r)])
     else length rounds = n \<and> fin = []"
    by (auto simp: reaped_def)
  with assms(1) show ?thesis
    unfolding reaped_def by (intro exI [of _ "(ev # es) # rounds"] exI [of _ fin]) (auto split: if_splits)
qed

lemma emits_reap_loop: "emits (reap_loop ovf k n) (\<lambda>_. reap_panicked ovf) (reaped n)"
proof (induction n)
  case 0
  show ?case by (simp add: emits_def reaped_def)
next
  case (Suc n)
  have child: "emits (bnd (write_status ovf k (word_of_int (ans_num a)) (from_le (ans_data a))) (\<lambda>_. reap_loop ovf k n))
      (\<lambda>_ es'. reap_panicked ovf ([(Proc Waitpid, Inr a)] @ es')) (\<lambda>d es'. reaped (Suc n) d ([(Proc Waitpid, Inr a)] @ es'))"
    if pos: "0 < sint (word_of_int (ans_num a) :: i32)" for a
  proof (rule emits_bnd, rule emits_weaken [OF emits_write_status [OF pos]])
    fix es
    assume "negation_panic ovf (word_of_int (ans_num a)) (from_le (ans_data a)) es"
    then show "reap_panicked ovf ([(Proc Waitpid, Inr a)] @ es)"
      unfolding reap_panicked_def by (intro exI [of _ "[]"] exI [of _ a] exI [of _ es]) simp
  next
    fix es
    assume "file_events (word_of_int (ans_num a)) (from_le (ans_data a)) es"
    with pos have c: "child_events ([(Proc Waitpid, Inr a)] @ es)" by (auto simp: child_events_def)
    then show "emits (reap_loop ovf k n) (\<lambda>_ es'. reap_panicked ovf ([(Proc Waitpid, Inr a)] @ es @ es'))
        (\<lambda>d es'. reaped (Suc n) d ([(Proc Waitpid, Inr a)] @ es @ es'))"
      using reap_panicked_Suc [OF c] by (intro emits_weaken [OF Suc.IH]) (auto intro: reaped_Suc)
  qed
  show ?case
    unfolding reap_loop.simps
  proof (rule emits_bnd, rule emits_call_try)
    fix r :: reply
    have stop: "reaped (Suc n) True [(Proc Waitpid, r)]" if "no_child r"
      using that by (auto simp: reaped_def intro: exI [of _ "[]"])
    show "emits (let pid = (case r of Inr a \<Rightarrow> word_of_int (ans_num a) | Inl _ \<Rightarrow> - 1) :: i32;
           status = (case r of Inr a \<Rightarrow> from_le (ans_data a) | Inl _ \<Rightarrow> 0) :: i32
       in if sint pid \<le> 0 then ret True
          else bnd (write_status ovf k pid status) (\<lambda>_. reap_loop ovf k n))
      (\<lambda>_ es'. reap_panicked ovf ([(Proc Waitpid, r)] @ es')) (\<lambda>d es'. reaped (Suc n) d ([(Proc Waitpid, r)] @ es'))"
    proof (cases r)
      case (Inl e)
      with stop show ?thesis by (simp add: emits_def no_child_def)
    next
      case (Inr a)
      with stop child [of a] show ?thesis by (auto simp: emits_def no_child_def Let_def)
    qed
  qed
qed

section \<open>Properties\<close>

text \<open>
  C38. The signal handler takes one exited child after another, at most one a round, and for each opens the
  file named by the process id in decimal and, if that worked, writes the status line and closes it; it
  stops when no child is left, and leaves \<open>errno\<close> as it found it. It panics in one case only: the
  build has overflow checks and a child's status is the least 32-bit number, which it negates.
\<close>

theorem sigchld_handler_reaps:
  "\<exists>t es. trace t = trace s @ es \<and>
     ((\<exists>d. sigchld_handler ovf k n s = (Inr d, t) \<and> last_errno t = last_errno s \<and> reaped n d es) \<or>
      sigchld_handler ovf k n s = (Inl (), t) \<and> reap_panicked ovf es)"
proof (cases "reap_loop ovf k n s")
  case (Pair r t)
  obtain es where t: "trace t = trace s @ es" and
    r: "case r of Inl _ \<Rightarrow> reap_panicked ovf es | Inr d \<Rightarrow> reaped n d es"
    by (rule emitsE [OF emits_reap_loop Pair])
  show ?thesis
  proof (cases r)
    case (Inl u)
    with t r Pair show ?thesis
      by (intro exI [of _ t] exI [of _ es]) (simp add: sigchld_handler_def bnd_def get_errno_def)
  next
    case (Inr d)
    with t r Pair show ?thesis
      by (intro exI [of _ "t\<lparr>last_errno := last_errno s\<rparr>"] exI [of _ es])
        (simp add: sigchld_handler_def bnd_def get_errno_def set_errno_def)
  qed
qed

text \<open>
  C39. A wait status survives the file: what the handler writes for a status, read back as the
  supervisor reads it (trimmed and parsed), is the status; it fits the 16-byte buffer.
\<close>

theorem status_file_roundtrip:
  assumes "sint status \<noteq> - (2 ^ 31)"
  shows "\<exists>text. status_text ovf status = Some text \<and> length text \<le> 16 \<and>
    parse_i32 (trim (string_at text)) = Some (sint status)"
proof -
  let ?s = "dec_int (sint status)"
  have ends: "\<not> is_space (hd (dec m))" "\<not> is_space (last (dec m))" for m
    using dec_all_digits [OF hd_in_set, of m] dec_all_digits [OF last_in_set, of m] digit_no_space by simp_all
  have "?s \<noteq> []" "\<not> is_space (hd ?s)" "\<not> is_space (last ?s)"
    using ends by (auto simp: dec_int_def is_space_def)
  moreover have "list_all is_space [newline]" by (simp add: is_space_def newline_def)
  ultimately have "trim (?s @ [newline]) = ?s" by (rule trim_framed)
  moreover have "parse_i32 ?s = Some (sint status)"
    using sint_i32_bounds [of status] by (intro parse_i32_dec_int)
  moreover have "length ?s \<le> 11"
    using sint_i32_bounds [of status] by (auto simp: dec_int_def intro!: le_trans [OF i32_dec_length])
  ultimately show ?thesis
    using assms by (simp add: status_text_dec del: map_append)
qed

theorem status_file_roundtrip_witness:
  "\<exists>text. status_text True 35584 = Some text \<and> parse_i32 (trim (string_at text)) = Some 35584"
  using status_file_roundtrip [of 35584 True] by auto

end
