(* ===== verification/ForkServer.thy ===== *)
theory ForkServer
  imports Namespace Pty StatusFile "HOL-Library.Multiset"
begin

text \<open>
  \<^verbatim>\<open>src/fork_server.rs\<close>: the process that clones the children. \<open>request_spawn\<close> is the parent's side of
  the socket, \<open>handle_one_request\<close> the server's (\<open>sigchld_handler\<close> is in the theory \<open>StatusFile\<close>). An owned descriptor is closed at the end of its scope, the last declared first
  (\<open>with_fds\<close>), but not in the cloned child, which never leaves the scope. The
  server's loop runs on fuel: the number of requests looked at.
\<close>

section \<open>Definitions\<close>

subsection \<open>The parent's side\<close>

record spawn_response =
  sr_pidfd :: fd
  sr_err_pipe_rd :: fd
  sr_stderr_pipe_rd :: fd
  sr_child_pid :: i32

text \<open>A zeroed buffer after a read that filled its first bytes.\<close>

definition fill_buf :: "nat \<Rightarrow> u8 list \<Rightarrow> u8 list" where
  "fill_buf n data = take n data @ replicate (n - length data) 0"

definition len_prefix :: "u8 list \<Rightarrow> u8 list" where
  "len_prefix payload = le_bytes 4 (word_of_nat (length payload) :: u32)"

definition prefix_len :: "u8 list \<Rightarrow> nat" where
  "prefix_len buf = unat (from_le buf :: u32)"

definition request_spawn ::
  "'w kernel \<Rightarrow> (i32 \<Rightarrow> errno) \<Rightarrow> fd \<Rightarrow> spawn_request \<Rightarrow> fd \<Rightarrow> fd \<Rightarrow> ('w, sandbox_error, spawn_response) io" where
  "request_spawn k from_raw sock req master_fd slave_fd =
     bnd (call_io k (Sock LockMutex) (\<lambda>_. ForkServerUnavailable)) (\<lambda>_.
     let payload = serialize req in
     bnd (call_io k (Sock (WriteAll sock (len_prefix payload))) IpcError) (\<lambda>_.
     bnd (call_nix k (Sock (SendMsg sock payload [master_fd, slave_fd])) (\<lambda>e. IpcError (OsError e))) (\<lambda>_.
     bnd (call_io k (Sock (ReadExact sock 4)) IpcError) (\<lambda>len_buf.
     let resp_len = prefix_len (ans_data len_buf) in
     bnd (call_nix k (Sock (RecvMsg sock resp_len 3)) (\<lambda>e. IpcError (OsError e))) (\<lambda>msg.
     case decode_response from_raw (fill_buf resp_len (ans_data msg)) of
       Some (Inr child_pid) \<Rightarrow>
         (case ans_fds msg of
            pidfd # err_pipe_rd # stderr_pipe_rd # _ \<Rightarrow>
              ret \<lparr>sr_pidfd = pidfd, sr_err_pipe_rd = err_pipe_rd, sr_stderr_pipe_rd = stderr_pipe_rd,
                sr_child_pid = child_pid\<rparr>
          | _ \<Rightarrow> throw ForkServerUnavailable)
     | Some (Inl e) \<Rightarrow> throw (NamespaceCloneFailed e)
     | None \<Rightarrow> throw ForkServerUnavailable)))))"

subsection \<open>Serving a request\<close>

text \<open>
  What a request leads to in the process that runs the code: it is served, or the process is the
  cloned child, which has ended.
\<close>

datatype handled = Served | InChild "unit + child_end"

definition with_fds :: "'w kernel \<Rightarrow> fd list \<Rightarrow> ('w, 'e, handled) io \<Rightarrow> ('w, 'e, handled) io" where
  "with_fds k fds m =
     bnd (attempt m) (\<lambda>r.
       case r of
         Inr (InChild e) \<Rightarrow> ret (InChild e)
       | _ \<Rightarrow> bnd (close_all k fds) (\<lambda>_. lift r))"

definition send_error :: "'w kernel \<Rightarrow> fd \<Rightarrow> errno \<Rightarrow> ('w, 'e, handled) io" where
  "send_error k sock errno_val =
     (let payload = encode_err_response errno_val in
      bnd (call_ignore k (Sock (WriteAll sock (len_prefix payload)))) (\<lambda>_.
      bnd (call_ignore k (Sock (WriteAll sock payload))) (\<lambda>_. ret Served)))"

definition send_errno :: "'w kernel \<Rightarrow> fd \<Rightarrow> ('w, 'e, handled) io" where
  "send_errno k sock = bnd get_errno (send_error k sock)"

definition write_cgroup_procs :: "'w kernel \<Rightarrow> path \<Rightarrow> i32 \<Rightarrow> ('w, errno, unit) io" where
  "write_cgroup_procs k path pid =
     unit_of (call_last k (Fs (WriteNew (path_join path ''cgroup.procs'') (dec_int (sint pid)))) (\<lambda>e. e))"

definition receive_request :: "'w kernel \<Rightarrow> fd \<Rightarrow> ('w, unit, fd \<times> fd \<times> spawn_request option) io" where
  "receive_request k sock =
     bnd (call_io k (Sock (ReadExact sock 4)) (\<lambda>_. ())) (\<lambda>len_buf.
     let payload_len = prefix_len (ans_data len_buf) in
     bnd (call_io k (Sock (RecvMsg sock payload_len 2)) (\<lambda>_. ())) (\<lambda>msg.
     case ans_fds msg of
       master_fd # slave_fd # _ \<Rightarrow>
         ret (master_fd, slave_fd, deserialize (fill_buf payload_len (ans_data msg)))
     | _ \<Rightarrow> throw ()))"

text \<open>The parent side after the clone: \<open>cgroup.procs\<close>, the maps, the barrier, the response.\<close>

definition release_child ::
  "'w kernel \<Rightarrow> fd \<Rightarrow> spawn_request \<Rightarrow> fd \<Rightarrow> clone_result \<Rightarrow> fd \<Rightarrow> fd \<Rightarrow> ('w, unit, handled) io" where
  "release_child k sock req efd c err_pipe_rd stderr_pipe_rd =
     bnd (attempt (write_cgroup_procs k (rq_cgroup_path req) (cr_child_pid c))) (\<lambda>r.
     case r of
       Inl e \<Rightarrow> send_error k sock e
     | Inr _ \<Rightarrow>
         bnd (attempt (write_uid_gid_maps k (cr_child_pid c) (rq_host_uid req) (rq_host_gid req))) (\<lambda>r.
         case r of
           Inl _ \<Rightarrow> send_errno k sock
         | Inr _ \<Rightarrow>
             bnd (call_ignore k (Fd (WriteFd efd (le_bytes 8 (1 :: u64))))) (\<lambda>_.
             let resp_payload = encode_ok_response (cr_child_pid c) in
             bnd (call_io k (Sock (WriteAll sock (len_prefix resp_payload))) (\<lambda>_. ())) (\<lambda>_.
             bnd (call_ignore k (Sock (SendMsg sock resp_payload [cr_pidfd c, err_pipe_rd, stderr_pipe_rd]))) (\<lambda>_.
             ret Served)))))"

text \<open>A descriptor a successful \<open>pipe2\<close> stored; the array was zeroed before.\<close>

definition pipe_end :: "answer \<Rightarrow> nat \<Rightarrow> fd" where
  "pipe_end a i = (if i < length (ans_fds a) then ans_fds a ! i else 0)"

definition clone_child ::
  "'w kernel \<Rightarrow> (string \<Rightarrow> u32) \<Rightarrow> fd \<Rightarrow> fd \<Rightarrow> fd \<Rightarrow> spawn_request \<Rightarrow> fd \<Rightarrow> answer \<Rightarrow> answer \<Rightarrow>
   ('w, unit, handled) io" where
  "clone_child k sys sock master_fd slave_fd req efd err_pipe stderr_pipe =
     bnd (attempt (clone3_sandbox k)) (\<lambda>r.
     case r of
       Inl e \<Rightarrow> send_error k sock e
     | Inr None \<Rightarrow>
         bnd (close_all k [master_fd, pipe_end err_pipe 0, pipe_end stderr_pipe 0]) (\<lambda>_.
         bnd (attempt (child_run k sys \<lparr>cc_req = req, cc_sync_read_fd = efd, cc_slave_fd = slave_fd,
            cc_stderr_write_fd = pipe_end stderr_pipe 1, cc_err_pipe_write = pipe_end err_pipe 1\<rparr>)) (\<lambda>e.
         ret (InChild e)))
     | Inr (Some c) \<Rightarrow>
         with_fds k [cr_pidfd c]
           (release_child k sock req efd c (pipe_end err_pipe 0) (pipe_end stderr_pipe 0)))"

definition serve_request ::
  "'w kernel \<Rightarrow> (string \<Rightarrow> u32) \<Rightarrow> fd \<Rightarrow> fd \<Rightarrow> fd \<Rightarrow> spawn_request \<Rightarrow> ('w, unit, handled) io" where
  "serve_request k sys sock master_fd slave_fd req =
     bnd (call_try k (Fd EventFd)) (\<lambda>r.
     case r of
       Inl e \<Rightarrow> send_error k sock (nix_errno e)
     | Inr efd \<Rightarrow> with_fds k [ans_num efd] (
         bnd (call_try k (Fd (Pipe2 {O_CLOEXEC}))) (\<lambda>r.
         case r of
           Inl _ \<Rightarrow> send_errno k sock
         | Inr err_pipe \<Rightarrow> with_fds k [pipe_end err_pipe 1, pipe_end err_pipe 0] (
             bnd (call_try k (Fd (Pipe2 {}))) (\<lambda>r.
             case r of
               Inl _ \<Rightarrow> send_errno k sock
             | Inr stderr_pipe \<Rightarrow> with_fds k [pipe_end stderr_pipe 1, pipe_end stderr_pipe 0]
                 (clone_child k sys sock master_fd slave_fd req (ans_num efd) err_pipe stderr_pipe))))))"

definition handle_one_request :: "'w kernel \<Rightarrow> (string \<Rightarrow> u32) \<Rightarrow> fd \<Rightarrow> ('w, unit, handled) io" where
  "handle_one_request k sys sock =
     bnd (receive_request k sock) (\<lambda>(master_fd, slave_fd, req).
     with_fds k [slave_fd, master_fd]
       (case req of
          None \<Rightarrow> send_error k sock EINVAL
        | Some r \<Rightarrow> serve_request k sys sock master_fd slave_fd r))"

subsection \<open>The server\<close>

datatype server_end = Serving | Stopped | ChildOf "unit + child_end"

primrec serve :: "'w kernel \<Rightarrow> (string \<Rightarrow> u32) \<Rightarrow> fd \<Rightarrow> nat \<Rightarrow> ('w, 'e, server_end) io" where
  "serve k sys sock 0 = ret Serving"
| "serve k sys sock (Suc n) =
     bnd (attempt (handle_one_request k sys sock)) (\<lambda>r.
     case r of
       Inl _ \<Rightarrow> bnd (call_ignore k (Proc (ExitProcess 0))) (\<lambda>_. ret Stopped)
     | Inr (InChild e) \<Rightarrow> ret (ChildOf e)
     | Inr Served \<Rightarrow> serve k sys sock n)"

definition fork_server_main :: "'w kernel \<Rightarrow> (string \<Rightarrow> u32) \<Rightarrow> fd \<Rightarrow> nat \<Rightarrow> ('w, 'e, server_end) io" where
  "fork_server_main k sys sock n =
     bnd (call_ignore k (Proc UnblockSigchld)) (\<lambda>_.
     bnd (call_ignore k (Proc HandleSigchld)) (\<lambda>_.
     bnd (call_ignore k (Fd (CloseRangeCloexec 3))) (\<lambda>_.
     bnd (call_ignore k (Fd (ClearCloexec sock))) (\<lambda>_.
     serve k sys sock n))))"

datatype spawned = ForkServer fd | ServerProcess server_end

definition spawn :: "'w kernel \<Rightarrow> (string \<Rightarrow> u32) \<Rightarrow> nat \<Rightarrow> ('w, sandbox_error, spawned) io" where
  "spawn k sys n =
     bnd (call_io k (Sock SocketPair) IpcError) (\<lambda>pair.
     let parent_sock = pipe_end pair 0; child_sock = pipe_end pair 1 in
     bnd (or_close k [child_sock, parent_sock] (call_last k (Proc Fork) NamespaceCloneFailed)) (\<lambda>pid.
     if ans_num pid = 0 then
       bnd (close_all k [parent_sock]) (\<lambda>_.
       bnd (fork_server_main k sys child_sock n) (\<lambda>e. ret (ServerProcess e)))
     else bnd (close_all k [child_sock]) (\<lambda>_. ret (ForkServer parent_sock))))"

section \<open>Specifications\<close>

subsection \<open>Descriptors\<close>

text \<open>
  The descriptors an event gives the process and those it takes away. \<open>recvmsg\<close> gives as many as it has
  room for.
\<close>

fun opened_by :: "event \<Rightarrow> fd multiset" where
  "opened_by (Sock (RecvMsg _ _ n), Inr a) = mset (take n (ans_fds a))"
| "opened_by (Pty (PosixOpenpt _), Inr a) = {#ans_num a#}"
| "opened_by (Fd (OpenFd _ _ _), Inr a) = {#ans_num a#}"
| "opened_by (Fd EventFd, Inr a) = {#ans_num a#}"
| "opened_by (Fd (Pipe2 _), Inr a) = {#pipe_end a 0, pipe_end a 1#}"
| "opened_by (Proc (Clone3 _ _), Inr a) =
     (if ans_num a = 0 then {#} else {#case ans_fds a of [] \<Rightarrow> - 1 | f # _ \<Rightarrow> f#})"
| "opened_by _ = {#}"

fun closed_by :: "event \<Rightarrow> fd multiset" where
  "closed_by (Fd (CloseFd f), _) = {#f#}"
| "closed_by _ = {#}"

definition opened_fds :: "event list \<Rightarrow> fd multiset" where
  "opened_fds es = sum_list (map opened_by es)"

definition closed_fds :: "event list \<Rightarrow> fd multiset" where
  "closed_fds es = sum_list (map closed_by es)"

definition balanced :: "event list \<Rightarrow> bool" where
  "balanced es \<longleftrightarrow> opened_fds es = closed_fds es"

text \<open>
  What becomes of one descriptor of a process, as an event changes it: it is open and kept over \<open>execve\<close>,
  open and marked close-on-exec, or gone (closed, replaced, or its number handed out for another file).
\<close>

datatype fd_slot = Kept | Marked | Gone

fun slot_step :: "fd \<Rightarrow> event \<Rightarrow> fd_slot \<Rightarrow> fd_slot" where
  "slot_step f (Fd (CloseRangeCloexec n), Inr _) s = (if s = Kept \<and> int n \<le> f then Marked else s)"
| "slot_step f (Fd (ClearCloexec g), Inr _) s = (if s = Marked \<and> g = f then Kept else s)"
| "slot_step f (Fd (CloseFd g), _) s = (if g = f then Gone else s)"
| "slot_step f (Fd (Dup2 g h), Inr _) s = (if h = f \<and> g \<noteq> f then Gone else s)"
| "slot_step f (Proc (Execve _ _ _), Inr _) s = (if s = Marked then Gone else s)"
| "slot_step f ev s = (if f \<in># opened_by ev then Gone else s)"

definition slot_after :: "fd \<Rightarrow> event list \<Rightarrow> fd_slot \<Rightarrow> fd_slot" where
  "slot_after f es s = fold (slot_step f) es s"

text \<open>The program is back in the server (not in a cloned child) with every descriptor closed.\<close>

definition keeps_balance :: "('w, 'e, handled) io \<Rightarrow> bool" where
  "keeps_balance m \<longleftrightarrow> emits m (\<lambda>_. balanced) (\<lambda>h es. (\<exists>e. h = InChild e) \<or> balanced es)"

fun neutral :: "call \<Rightarrow> bool" where
  "neutral (Sock (RecvMsg _ _ _)) \<longleftrightarrow> False"
| "neutral (Pty (PosixOpenpt _)) \<longleftrightarrow> False"
| "neutral (Fd (OpenFd _ _ _)) \<longleftrightarrow> False"
| "neutral (Fd EventFd) \<longleftrightarrow> False"
| "neutral (Fd (Pipe2 _)) \<longleftrightarrow> False"
| "neutral (Proc (Clone3 _ _)) \<longleftrightarrow> False"
| "neutral (Fd (CloseFd _)) \<longleftrightarrow> False"
| "neutral _ \<longleftrightarrow> True"

section \<open>Lemmas\<close>

lemma fds_simps [simp]:
  "opened_fds [] = {#}" "opened_fds (ev # es) = opened_by ev + opened_fds es"
  "opened_fds (es @ es') = opened_fds es + opened_fds es'"
  "closed_fds [] = {#}" "closed_fds (ev # es) = closed_by ev + closed_fds es"
  "closed_fds (es @ es') = closed_fds es + closed_fds es'"
  by (simp_all add: opened_fds_def closed_fds_def)

lemma neutral_event: "neutral c \<Longrightarrow> opened_by (c, r) = {#}" "neutral c \<Longrightarrow> closed_by (c, r) = {#}"
proof -
  show "neutral c \<Longrightarrow> opened_by (c, r) = {#}"
  proof (cases c)
    case (Pty x)
    then show "neutral c \<Longrightarrow> ?thesis" by (cases x; cases r) simp_all
  next
    case (Sock x)
    then show "neutral c \<Longrightarrow> ?thesis" by (cases x; cases r) simp_all
  next
    case (Fd x)
    then show "neutral c \<Longrightarrow> ?thesis" by (cases x; cases r) simp_all
  next
    case (Proc x)
    then show "neutral c \<Longrightarrow> ?thesis" by (cases x; cases r) simp_all
  qed (cases r; simp)+
  show "neutral c \<Longrightarrow> closed_by (c, r) = {#}"
  proof (cases c)
    case (Fd x)
    then show "neutral c \<Longrightarrow> ?thesis" by (cases x) simp_all
  qed simp_all
qed

lemma only_neutral: "only neutral es \<Longrightarrow> opened_fds es = {#} \<and> closed_fds es = {#}"
  by (induction es) (auto simp: neutral_event)

lemma closes_events:
  "calls_of es = map (\<lambda>f. Fd (CloseFd f)) fds \<Longrightarrow> opened_fds es = {#} \<and> closed_fds es = mset fds"
  by (induction fds arbitrary: es) (auto simp: map_eq_Cons_conv)

lemma keeps_neutral: "stays neutral m \<Longrightarrow> keeps_balance m"
  unfolding keeps_balance_def stays_def
  by (erule emits_weaken) (auto simp: balanced_def dest!: only_neutral)

lemma stays_send [stays_rules]: "stays neutral (send_error k sock e)" "stays neutral (send_errno k sock)"
  unfolding send_error_def send_errno_def Let_def by (auto intro!: stays_rules)

lemma stays_release: "stays neutral (release_child k sock req efd c rd rd')"
  unfolding release_child_def write_cgroup_procs_def write_uid_gid_maps_def Let_def
  by (auto intro!: stays_rules split: sum.splits)

lemma with_fds_balance:
  assumes "keeps_balance m"
  shows "emits (with_fds k fds m) (\<lambda>_ es. closed_fds es = opened_fds es + mset fds)
    (\<lambda>h es. (\<exists>e. h = InChild e) \<or> closed_fds es = opened_fds es + mset fds)"
  unfolding with_fds_def
proof (rule emits_bnd, rule emits_attempt, rule emits_weaken)
  show "emits m (\<lambda>_. balanced) (\<lambda>h es. (\<exists>e. h = InChild e) \<or> balanced es)"
    using assms by (simp add: keeps_balance_def)
next
  let ?E = "\<lambda>es es'. closed_fds (es @ es') = opened_fds (es @ es') + mset fds"
  have close: "emits (bnd (close_all k fds) (\<lambda>_. lift r)) (\<lambda>_. ?E es) (\<lambda>h es'. (\<exists>e. h = InChild e) \<or> ?E es es')"
    if "balanced es" for r es
    using that
    by (intro emits_bnd emits_weaken [OF emits_close_all [where E = "\<lambda>_ _. False"]])
      (auto intro!: emits_lift simp: balanced_def dest!: closes_events)
  show "emits (case Inl e of Inr (InChild e) \<Rightarrow> ret (InChild e) | _ \<Rightarrow> bnd (close_all k fds) (\<lambda>_. lift (Inl e)))
      (\<lambda>_. ?E es) (\<lambda>h es'. (\<exists>e. h = InChild e) \<or> ?E es es')" if "balanced es" for e es
    using close [OF that] by simp
  show "emits (case Inr h of Inr (InChild e) \<Rightarrow> ret (InChild e) | _ \<Rightarrow> bnd (close_all k fds) (\<lambda>_. lift (Inr h)))
      (\<lambda>_. ?E es) (\<lambda>h es'. (\<exists>e. h = InChild e) \<or> ?E es es')" if "(\<exists>e. h = InChild e) \<or> balanced es" for h es
    using that close by (cases h) (auto simp: emits_def)
qed

text \<open>A call that opens descriptors and the scope that owns them.\<close>

lemma open_scope:
  assumes "\<And>e. keeps_balance (m1 e)" and "\<And>a. keeps_balance (m2 a)"
    and "\<And>r. closed_by (c, r) = {#}" and "\<And>e. opened_by (c, Inl e) = {#}"
    and "\<And>a. opened_by (c, Inr a) = mset (fds a)"
  shows "keeps_balance (bnd (call_try k c) (\<lambda>r. case r of Inl e \<Rightarrow> m1 e | Inr a \<Rightarrow> with_fds k (fds a) (m2 a)))"
  unfolding keeps_balance_def
proof (rule emits_bnd, rule emits_call_try)
  fix r
  let ?m = "case r of Inl e \<Rightarrow> m1 e | Inr a \<Rightarrow> with_fds k (fds a) (m2 a)"
  show "emits ?m (\<lambda>_ es'. balanced ([(c, r)] @ es')) (\<lambda>h es'. (\<exists>e. h = InChild e) \<or> balanced ([(c, r)] @ es'))"
  proof (cases r)
    case (Inl e)
    have "emits (m1 e) (\<lambda>_ es'. balanced ([(c, Inl e)] @ es'))
        (\<lambda>h es'. (\<exists>e. h = InChild e) \<or> balanced ([(c, Inl e)] @ es'))"
      by (rule emits_weaken [OF assms(1) [of e, unfolded keeps_balance_def]])
        (auto simp: balanced_def assms(3,4))
    with Inl show ?thesis by simp
  next
    case (Inr a)
    have "emits (with_fds k (fds a) (m2 a)) (\<lambda>_ es'. balanced ([(c, Inr a)] @ es'))
        (\<lambda>h es'. (\<exists>e. h = InChild e) \<or> balanced ([(c, Inr a)] @ es'))"
      by (rule emits_weaken [OF with_fds_balance [OF assms(2)]])
        (auto simp: balanced_def assms(3,5))
    with Inr show ?thesis by simp
  qed
qed

lemma emits_clone3:
  "emits (clone3_sandbox k) (\<lambda>e es. \<exists>x. es = [(Proc (Clone3 CLONE_FLAGS (word_of_int SIGCHLD)), Inl x)])
    (\<lambda>c es. \<exists>a. es = [(Proc (Clone3 CLONE_FLAGS (word_of_int SIGCHLD)), Inr a)] \<and>
       (case c of None \<Rightarrow> ans_num a = 0
        | Some c \<Rightarrow> ans_num a \<noteq> 0 \<and> cr_child_pid c = word_of_int (ans_num a) \<and>
            cr_pidfd c = (case ans_fds a of [] \<Rightarrow> - 1 | f # _ \<Rightarrow> f)))"
  unfolding clone3_sandbox_def by (intro emits_rules) auto

lemma clone_balance: "keeps_balance (clone_child k sys sock m sl req efd ep sp)"
  unfolding keeps_balance_def clone_child_def
proof (rule emits_bnd, rule emits_attempt, rule emits_weaken [OF emits_clone3])
  fix e and es :: "event list"
  assume "\<exists>x. es = [(Proc (Clone3 CLONE_FLAGS (word_of_int SIGCHLD)), Inl x)]"
  then show "emits (case Inl e of Inl e \<Rightarrow> send_error k sock e | Inr None \<Rightarrow> X | Inr (Some c) \<Rightarrow> Y c)
      (\<lambda>_ es'. balanced (es @ es')) (\<lambda>h es'. (\<exists>e. h = InChild e) \<or> balanced (es @ es'))" for X Y
    by (auto simp: balanced_def
        intro!: emits_weaken [OF keeps_neutral [OF stays_send(1), unfolded keeps_balance_def]])
next
  fix c :: "clone_result option" and es :: "event list"
  assume c: "\<exists>a. es = [(Proc (Clone3 CLONE_FLAGS (word_of_int SIGCHLD)), Inr a)] \<and>
       (case c of None \<Rightarrow> ans_num a = 0
        | Some c \<Rightarrow> ans_num a \<noteq> 0 \<and> cr_child_pid c = word_of_int (ans_num a) \<and>
            cr_pidfd c = (case ans_fds a of [] \<Rightarrow> - 1 | f # _ \<Rightarrow> f))"
  show "emits (case Inr c of Inl e \<Rightarrow> send_error k sock e
      | Inr None \<Rightarrow> bnd (close_all k [m, pipe_end ep 0, pipe_end sp 0]) (\<lambda>_.
         bnd (attempt (child_run k sys \<lparr>cc_req = req, cc_sync_read_fd = efd, cc_slave_fd = sl,
            cc_stderr_write_fd = pipe_end sp 1, cc_err_pipe_write = pipe_end ep 1\<rparr>)) (\<lambda>e. ret (InChild e)))
      | Inr (Some c) \<Rightarrow> with_fds k [cr_pidfd c] (release_child k sock req efd c (pipe_end ep 0) (pipe_end sp 0)))
      (\<lambda>_ es'. balanced (es @ es')) (\<lambda>h es'. (\<exists>e. h = InChild e) \<or> balanced (es @ es'))"
  proof (cases c)
    case None
    then show ?thesis
      by (auto intro!: emits_bnd emits_attempt emits_ret emits_weaken [OF emits_close_all [where E = "\<lambda>_ _. False"]]
          emits_weaken [OF emits_child_run])
  next
    case (Some x)
    show ?thesis
      unfolding Some sum.case option.case
      using c Some by (intro emits_weaken [OF with_fds_balance [OF keeps_neutral [OF stays_release]]])
        (auto simp: balanced_def)
  qed
qed

lemma serve_balance: "keeps_balance (serve_request k sys sock m sl req)"
  unfolding serve_request_def
  by (intro open_scope keeps_neutral stays_send clone_balance) (auto simp: add_mset_commute)

lemma emits_receive:
  "emits (receive_request k sock) (\<lambda>_ _. True)
     (\<lambda>x es. closed_fds es = {#} \<and> opened_fds es = {#fst x, fst (snd x)#})"
  unfolding receive_request_def Let_def
  by (intro emits_rules) (auto simp: emits_def split: list.splits)

lemma handle_balance:
  "emits (handle_one_request k sys sock) (\<lambda>_ _. True) (\<lambda>h es. (\<exists>e. h = InChild e) \<or> balanced es)"
proof -
  have served: "keeps_balance (case req of None \<Rightarrow> send_error k sock EINVAL | Some r \<Rightarrow> serve_request k sys sock m sl r)"
    for req m sl
    by (cases req) (simp_all add: keeps_neutral stays_send serve_balance)
  show ?thesis
    unfolding handle_one_request_def
  proof (rule emits_bnd, rule emits_weaken [OF emits_receive], simp)
    fix x :: "fd \<times> fd \<times> spawn_request option" and es
    assume x: "closed_fds es = {#} \<and> opened_fds es = {#fst x, fst (snd x)#}"
    obtain m sl req where [simp]: "x = (m, sl, req)" by (cases x)
    show "emits (case x of (m, sl, req) \<Rightarrow> with_fds k [sl, m]
         (case req of None \<Rightarrow> send_error k sock EINVAL | Some r \<Rightarrow> serve_request k sys sock m sl r))
       (\<lambda>_ _. True) (\<lambda>h es'. (\<exists>e. h = InChild e) \<or> balanced (es @ es'))"
      using x by (auto intro!: emits_weaken [OF with_fds_balance [OF served]] simp: balanced_def)
  qed
qed

subsection \<open>The release of a child\<close>

definition procs_call :: "spawn_request \<Rightarrow> clone_result \<Rightarrow> call" where
  "procs_call req c =
     Fs (WriteNew (path_join (rq_cgroup_path req) ''cgroup.procs'') (dec_int (sint (cr_child_pid c))))"

definition error_calls :: "fd \<Rightarrow> errno \<Rightarrow> call list" where
  "error_calls sock n =
     [Sock (WriteAll sock (len_prefix (encode_err_response n))), Sock (WriteAll sock (encode_err_response n))]"

text \<open>
  What a release does: a failed assignment or failed maps end in an error response; else the barrier
  is signalled and the response sent, its descriptors only if its length could be written.
\<close>

definition release_failed :: "fd \<Rightarrow> spawn_request \<Rightarrow> clone_result \<Rightarrow> event list \<Rightarrow> bool" where
  "release_failed sock req c es \<longleftrightarrow>
     (\<exists>n. (\<exists>x es'. es = (procs_call req c, Inl x) # es' \<and> (\<forall>m. x = OsError m \<longrightarrow> n = m) \<and>
             calls_of es' = error_calls sock n) \<or>
          (\<exists>a maps es'. es = (procs_call req c, Inr a) # maps @ es' \<and>
             maps_failed (cr_child_pid c) (rq_host_uid req) (rq_host_gid req) maps \<and>
             calls_of es' = error_calls sock n))"

definition release_done :: "fd \<Rightarrow> spawn_request \<Rightarrow> fd \<Rightarrow> clone_result \<Rightarrow> fd \<Rightarrow> fd \<Rightarrow> event list \<Rightarrow> bool" where
  "release_done sock req efd c rd rd' es \<longleftrightarrow>
     (\<exists>a maps r b r'. es = (procs_call req c, Inr a) # maps @
          [(Fd (WriteFd efd (le_bytes 8 (1 :: u64))), r),
           (Sock (WriteAll sock (len_prefix (encode_ok_response (cr_child_pid c)))), Inr b),
           (Sock (SendMsg sock (encode_ok_response (cr_child_pid c)) [cr_pidfd c, rd, rd']), r')] \<and>
        maps_written (cr_child_pid c) (rq_host_uid req) (rq_host_gid req) maps)"

definition release_cut :: "fd \<Rightarrow> spawn_request \<Rightarrow> fd \<Rightarrow> clone_result \<Rightarrow> event list \<Rightarrow> bool" where
  "release_cut sock req efd c es \<longleftrightarrow>
     (\<exists>a maps r x. es = (procs_call req c, Inr a) # maps @
          [(Fd (WriteFd efd (le_bytes 8 (1 :: u64))), r),
           (Sock (WriteAll sock (len_prefix (encode_ok_response (cr_child_pid c)))), Inl x)] \<and>
        maps_written (cr_child_pid c) (rq_host_uid req) (rq_host_gid req) maps)"

lemma emits_send_error:
  "emits (send_error k sock n) E (\<lambda>h es. h = Served \<and> calls_of es = error_calls sock n)"
  unfolding send_error_def Let_def by (intro emits_rules) (simp add: error_calls_def)

lemma emits_send_errno:
  "emits (send_errno k sock) E (\<lambda>h es. h = Served \<and> (\<exists>n. calls_of es = error_calls sock n))"
  unfolding send_errno_def
  by (rule emits_bnd, rule emits_get_errno, rule emits_weaken [OF emits_send_error]) auto

lemma emits_procs:
  "emits (write_cgroup_procs k (rq_cgroup_path req) (cr_child_pid c))
     (\<lambda>n es. \<exists>x. es = [(procs_call req c, Inl x)] \<and> (\<forall>m. x = OsError m \<longrightarrow> n = m))
     (\<lambda>_ es. \<exists>a. es = [(procs_call req c, Inr a)])"
  unfolding write_cgroup_procs_def procs_call_def by (intro emits_rules) auto

lemma release_failedI1:
  "calls_of es' = error_calls sock n \<Longrightarrow> (\<And>m. x = OsError m \<Longrightarrow> n = m) \<Longrightarrow>
   release_failed sock req c ([(procs_call req c, Inl x)] @ es')"
  by (auto simp: release_failed_def)

lemma release_failedI2:
  "maps_failed (cr_child_pid c) (rq_host_uid req) (rq_host_gid req) maps \<Longrightarrow> calls_of es' = error_calls sock n \<Longrightarrow>
   release_failed sock req c ((procs_call req c, Inr a) # maps @ es')"
  unfolding release_failed_def by blast

lemma emits_release:
  "emits (release_child k sock req efd c rd rd') (\<lambda>_. release_cut sock req efd c)
     (\<lambda>h es. h = Served \<and> (release_failed sock req c es \<or> release_done sock req efd c rd rd' es))"
proof -
  let ?E = "\<lambda>_ :: unit. release_cut sock req efd c"
  let ?Q = "\<lambda>h es. h = Served \<and> (release_failed sock req c es \<or> release_done sock req efd c rd rd' es)"
  have tail: "emits (bnd (call_ignore k (Fd (WriteFd efd (le_bytes 8 (1 :: u64))))) (\<lambda>_.
      bnd (call_io k (Sock (WriteAll sock (len_prefix (encode_ok_response (cr_child_pid c))))) (\<lambda>_. ())) (\<lambda>_.
      bnd (call_ignore k (Sock (SendMsg sock (encode_ok_response (cr_child_pid c)) [cr_pidfd c, rd, rd']))) (\<lambda>_.
      ret Served)))) (\<lambda>e es'. ?E e ((procs_call req c, Inr a) # maps @ es'))
      (\<lambda>h es'. ?Q h ((procs_call req c, Inr a) # maps @ es'))"
    if "maps_written (cr_child_pid c) (rq_host_uid req) (rq_host_gid req) maps" for a maps
    using that by (intro emits_rules) (auto simp: release_cut_def release_done_def)
  have maps: "emits (bnd (attempt (write_uid_gid_maps k (cr_child_pid c) (rq_host_uid req) (rq_host_gid req))) (\<lambda>r.
         case r of
           Inl _ \<Rightarrow> send_errno k sock
         | Inr _ \<Rightarrow>
             bnd (call_ignore k (Fd (WriteFd efd (le_bytes 8 (1 :: u64))))) (\<lambda>_.
             bnd (call_io k (Sock (WriteAll sock (len_prefix (encode_ok_response (cr_child_pid c))))) (\<lambda>_. ())) (\<lambda>_.
             bnd (call_ignore k (Sock (SendMsg sock (encode_ok_response (cr_child_pid c)) [cr_pidfd c, rd, rd']))) (\<lambda>_.
             ret Served)))))
      (\<lambda>e es'. ?E e ((procs_call req c, Inr a) # es')) (\<lambda>h es'. ?Q h ((procs_call req c, Inr a) # es'))" for a
  proof (rule emits_bnd, rule emits_attempt, rule emits_weaken [OF emits_maps])
    fix n and es :: "event list"
    assume "maps_failed (cr_child_pid c) (rq_host_uid req) (rq_host_gid req) es"
    then show "emits (case Inl n of Inl _ \<Rightarrow> send_errno k sock | Inr _ \<Rightarrow> X)
        (\<lambda>e es'. ?E e ((procs_call req c, Inr a) # es @ es')) (\<lambda>h es'. ?Q h ((procs_call req c, Inr a) # es @ es'))" for X
      by (auto intro!: emits_weaken [OF emits_send_errno [where E = "\<lambda>_ _. False"]] intro: release_failedI2)
  qed (use tail in simp)
  show ?thesis
    unfolding release_child_def Let_def
  proof (rule emits_bnd, rule emits_attempt, rule emits_weaken [OF emits_procs])
    fix n and es :: "event list"
    assume "\<exists>x. es = [(procs_call req c, Inl x)] \<and> (\<forall>m. x = OsError m \<longrightarrow> n = m)"
    then obtain x where "es = [(procs_call req c, Inl x)]" "\<And>m. x = OsError m \<Longrightarrow> n = m" by blast
    then show "emits (case Inl n of Inl e \<Rightarrow> send_error k sock e | Inr _ \<Rightarrow> X) (\<lambda>e es'. ?E e (es @ es')) (\<lambda>h es'. ?Q h (es @ es'))" for X
      using release_failedI1 [of _ sock n x req c]
      by (auto intro!: emits_weaken [OF emits_send_error [where E = "\<lambda>_ _. False"]])
  qed (use maps in auto)
qed

subsection \<open>The wire\<close>

lemma prefix_len_len_prefix [simp]: "length p < 2 ^ 32 \<Longrightarrow> prefix_len (len_prefix p) = length p"
  by (simp add: prefix_len_def len_prefix_def unat_of_nat)

lemma fill_buf_whole [simp]: "fill_buf (length p) p = p"
  by (simp add: fill_buf_def)

lemma fill_buf_short: "fill_buf (length p + n) p = p @ replicate n 0"
  by (simp add: fill_buf_def)

lemma wf_request_ids [simp]: "wf_request (r\<lparr>rq_host_uid := u, rq_host_gid := g\<rparr>) = wf_request r"
  by (simp add: wf_request_def)

text \<open>The host ids are the last eight bytes of a request.\<close>

lemma le_bytes_zero: "le_bytes n 0 = replicate n 0"
  by (simp add: le_bytes_def map_replicate_const)

lemma serialize_ids: 
  obtains pre where "\<And>u g. serialize (r\<lparr>rq_host_uid := u, rq_host_gid := g\<rparr>) = pre @ le_bytes 4 u @ le_bytes 4 g"
proof
  fix u g
  show "serialize (r\<lparr>rq_host_uid := u, rq_host_gid := g\<rparr>) =
     (enc_text (rq_workspace_path r) @ enc_counted enc_mount (rq_extra_ro_mounts r) @
     enc_u64 (rq_memory_max_bytes r) @ enc_u64 (rq_cpu_quota_us r) @ enc_u64 (rq_cpu_period_us r) @
     enc_u32 (rq_pids_max r) @ enc_u64 (rq_ttl_secs r) @ enc_u32 (rq_ttl_nanos r) @
     enc_counted enc_text (rq_argv r) @ enc_counted enc_text (rq_env r) @
     enc_u64 (rq_max_open_files r) @ enc_u64 (rq_max_file_size_bytes r) @
     enc_u64 (rq_stack_size_bytes r) @ enc_text (rq_cgroup_path r)) @ le_bytes 4 u @ le_bytes 4 g"
    by (simp add: serialize_eq_enc enc_request_def enc_u32_def)
qed

lemma deserialize_whole: "wf_request r \<Longrightarrow> length (serialize r) < 2 ^ 64 \<Longrightarrow> deserialize (serialize r) = Some r"
  by (rule deserialize_enc [where rest = "[]"]) (simp_all add: cursor_def serialize_eq_enc)

lemma short_request:
  assumes "wf_request r" and "length (serialize r) < 2 ^ 32"
  shows "deserialize (fill_buf (length (serialize r)) (take (length (serialize r) - 8) (serialize r))) =
    Some (r\<lparr>rq_host_uid := 0, rq_host_gid := 0\<rparr>)"
proof -
  obtain pre where pre: "\<And>u g. serialize (r\<lparr>rq_host_uid := u, rq_host_gid := g\<rparr>) = pre @ le_bytes 4 u @ le_bytes 4 g"
    using serialize_ids [of r] by blast
  have s: "serialize r = pre @ le_bytes 4 (rq_host_uid r) @ le_bytes 4 (rq_host_gid r)"
    using pre [of "rq_host_gid r" "rq_host_uid r"] by simp
  then have l: "length (serialize r) = length pre + 8" by simp
  have "fill_buf (length (serialize r)) (take (length (serialize r) - 8) (serialize r)) = pre @ replicate 8 0"
    unfolding l by (simp add: s fill_buf_short)
  also have "\<dots> = serialize (r\<lparr>rq_host_uid := 0, rq_host_gid := 0\<rparr>)"
    unfolding pre by (simp add: le_bytes_zero flip: replicate_add)
  finally show ?thesis
    using deserialize_whole [of "r\<lparr>rq_host_uid := 0, rq_host_gid := 0\<rparr>"] assms l by (simp add: pre)
qed

text \<open>A kernel that delivers to a reader of the socket a length prefix, then a message.\<close>

definition delivers :: "'w kernel \<Rightarrow> fd \<Rightarrow> 'w \<Rightarrow> u8 list \<Rightarrow> nat \<Rightarrow> u8 list \<Rightarrow> fd list \<Rightarrow> bool" where
  "delivers k sock w prefix n payload fds \<longleftrightarrow>
     (\<exists>a w1 b w2. k (Sock (ReadExact sock 4)) w = (Inr a, w1) \<and> ans_data a = prefix \<and>
        k (Sock (RecvMsg sock (prefix_len prefix) n)) w1 = (Inr b, w2) \<and> ans_data b = payload \<and> ans_fds b = fds)"

lemma receive_delivered:
  assumes "delivers k sock (world s) prefix 2 payload (m # sl # fds)"
  shows "fst (receive_request k sock s) = Inr (m, sl, deserialize (fill_buf (prefix_len prefix) payload))"
proof -
  from assms obtain a w1 b w2 where
    "k (Sock (ReadExact sock 4)) (world s) = (Inr a, w1)" "ans_data a = prefix"
    "k (Sock (RecvMsg sock (prefix_len prefix) 2)) w1 = (Inr b, w2)" "ans_data b = payload" "ans_fds b = m # sl # fds"
    by (auto simp: delivers_def)
  then show ?thesis by (simp add: receive_request_def run_defs Let_def)
qed

text \<open>A kernel that takes the client's request; the world is then \<open>w'\<close>.\<close>

definition accepts :: "'w kernel \<Rightarrow> fd \<Rightarrow> spawn_request \<Rightarrow> fd list \<Rightarrow> 'w \<Rightarrow> 'w \<Rightarrow> bool" where
  "accepts k sock req fds w w' \<longleftrightarrow>
     (\<exists>a w1 b w2 c. k (Sock LockMutex) w = (Inr a, w1) \<and>
        k (Sock (WriteAll sock (len_prefix (serialize req)))) w1 = (Inr b, w2) \<and>
        k (Sock (SendMsg sock (serialize req) fds)) w2 = (Inr c, w'))"

lemma request_answered:
  assumes "accepts k sock req [m, sl] (world s) w" and "delivers k sock w prefix 3 payload fds"
  shows "fst (request_spawn k from_raw sock req m sl s) =
    (case decode_response from_raw (fill_buf (prefix_len prefix) payload) of
       Some (Inr child_pid) \<Rightarrow>
         (case fds of
            pidfd # err_pipe_rd # stderr_pipe_rd # _ \<Rightarrow>
              Inr \<lparr>sr_pidfd = pidfd, sr_err_pipe_rd = err_pipe_rd, sr_stderr_pipe_rd = stderr_pipe_rd,
                sr_child_pid = child_pid\<rparr>
          | _ \<Rightarrow> Inl ForkServerUnavailable)
     | Some (Inl e) \<Rightarrow> Inl (NamespaceCloneFailed e)
     | None \<Rightarrow> Inl ForkServerUnavailable)"
proof -
  from assms(1) obtain a1 w1 a2 w2 a3 where
    "k (Sock LockMutex) (world s) = (Inr a1, w1)"
    "k (Sock (WriteAll sock (len_prefix (serialize req)))) w1 = (Inr a2, w2)"
    "k (Sock (SendMsg sock (serialize req) [m, sl])) w2 = (Inr a3, w)" by (auto simp: accepts_def)
  moreover from assms(2) obtain a w1 b w2 where
    "k (Sock (ReadExact sock 4)) w = (Inr a, w1)" "ans_data a = prefix"
    "k (Sock (RecvMsg sock (prefix_len prefix) 3)) w1 = (Inr b, w2)" "ans_data b = payload" "ans_fds b = fds"
    by (auto simp: delivers_def)
  ultimately show ?thesis
    by (simp add: request_spawn_def run_defs Let_def split: option.splits sum.splits list.splits)
qed

lemma emits_request_spawn:
  "emits (request_spawn k from_raw sock req m sl)
     (\<lambda>_ es. set (calls_of es) \<subseteq> {Sock LockMutex, Sock (WriteAll sock (len_prefix (serialize req))),
        Sock (SendMsg sock (serialize req) [m, sl]), Sock (ReadExact sock 4)} \<union> {Sock (RecvMsg sock n 3) | n. True})
     (\<lambda>_ es. set (calls_of es) \<subseteq> {Sock LockMutex, Sock (WriteAll sock (len_prefix (serialize req))),
        Sock (SendMsg sock (serialize req) [m, sl]), Sock (ReadExact sock 4)} \<union> {Sock (RecvMsg sock n 3) | n. True})"
  unfolding request_spawn_def Let_def
  by (intro emits_rules) (auto simp: emits_def split: option.splits sum.splits list.splits)

lemma release_sends:
  assumes "release_failed sock req c es \<or> release_done sock req efd c rd rd' es"
    and "Sock (SendMsg sock payload fds) \<in> set (calls_of es)"
  shows "release_done sock req efd c rd rd' es \<and> payload = encode_ok_response (cr_child_pid c) \<and> fds = [cr_pidfd c, rd, rd']"
proof -
  have maps: "Sock (SendMsg sock payload fds) \<notin> set (calls_of ms)"
    if "calls_of ms = take n (map_calls p u g)" for ms n p u g
    using in_set_takeD [of "Sock (SendMsg sock payload fds)" n "map_calls p u g"] that
    by (auto simp: map_calls_def simp del: set_map)
  then have "\<not> release_failed sock req c es"
    using assms(2) by (auto simp: release_failed_def procs_call_def error_calls_def maps_failed_def simp del: set_map)
  moreover from this assms(1) have "release_done sock req efd c rd rd' es" by simp
  moreover from this assms(2) maps [of _ 3]
  have "payload = encode_ok_response (cr_child_pid c) \<and> fds = [cr_pidfd c, rd, rd']"
    by (auto simp: release_done_def procs_call_def maps_written_def map_calls_def simp del: set_map)
  ultimately show ?thesis by simp
qed

lemma release_done_prefix:
  assumes "release_done sock req efd c rd rd' es" and "Sock (WriteAll sock prefix) \<in> set (calls_of es)"
  shows "prefix = len_prefix (encode_ok_response (cr_child_pid c))"
  using assms by (auto simp: release_done_def procs_call_def maps_written_def map_calls_def simp del: set_map)

subsection \<open>The server's descriptors\<close>

lemma emits_serve:
  fixes k :: "'w kernel"
  shows "emits (serve k sys sock n :: ('w, 'e, server_end) io) (\<lambda>_ _. False) (\<lambda>e es. e = Serving \<longrightarrow> balanced es)"
proof (induction n)
  case 0
  show ?case by (simp add: emits_def balanced_def)
next
  case (Suc n)
  have more: "emits (serve k sys sock n :: ('w, 'e, server_end) io) (\<lambda>_ _. False) (\<lambda>e es'. e = Serving \<longrightarrow> balanced (es @ es'))"
    if "balanced es" for es
    using that by (intro emits_weaken [OF Suc.IH]) (auto simp: balanced_def)
  show ?case
    unfolding serve.simps
  proof (rule emits_bnd, rule emits_attempt, rule emits_weaken [OF handle_balance])
    fix h es
    assume "(\<exists>e. h = InChild e) \<or> balanced es"
    then show "emits (case Inr h of Inl _ \<Rightarrow> bnd (call_ignore k (Proc (ExitProcess 0))) (\<lambda>_. ret Stopped)
        | Inr (InChild e) \<Rightarrow> ret (ChildOf e) | Inr Served \<Rightarrow> (serve k sys sock n :: ('w, 'e, server_end) io))
        (\<lambda>_ _. False) (\<lambda>e es'. e = Serving \<longrightarrow> balanced (es @ es'))"
      using more by (cases h) (auto simp: emits_def)
  qed (auto intro!: emits_rules)
qed

subsection \<open>What a cloned child closes\<close>

text \<open>A scope's descriptors are not closed in the cloned child.\<close>

lemma in_child_with_fds:
  assumes "emits m (\<lambda>_ _. True) (\<lambda>h es. h \<noteq> Served \<longrightarrow> Q h es)"
  shows "emits (with_fds k fds m) (\<lambda>_ _. True) (\<lambda>h es. h \<noteq> Served \<longrightarrow> Q h es)"
  unfolding with_fds_def
proof (rule emits_bnd, rule emits_attempt, rule emits_weaken [OF assms])
  have close: "emits (bnd (close_all k fds) (\<lambda>_. lift r)) (\<lambda>_ _. True) (\<lambda>h es'. h \<noteq> Served \<longrightarrow> P h es')"
    if "\<And>h. r = Inr h \<Longrightarrow> h = Served" for r P
    using that by (intro emits_bnd emits_weaken [OF emits_close_all [where E = "\<lambda>_ _. False"]]) (auto intro!: emits_lift)
  show "emits (case Inl e of Inr (InChild e) \<Rightarrow> ret (InChild e) | _ \<Rightarrow> bnd (close_all k fds) (\<lambda>_. lift (Inl e)))
      (\<lambda>_ _. True) (\<lambda>h es'. h \<noteq> Served \<longrightarrow> P h es')" for e P
    using close [of "Inl e"] by simp
  show "emits (case Inr h of Inr (InChild e) \<Rightarrow> ret (InChild e) | _ \<Rightarrow> bnd (close_all k fds) (\<lambda>_. lift (Inr h)))
      (\<lambda>_ _. True) (\<lambda>h es'. h \<noteq> Served \<longrightarrow> Q h (es @ es'))" if "h \<noteq> Served \<longrightarrow> Q h es" for h es
    using that close [of "Inr Served"] by (cases h) (simp_all add: emits_ret)
qed

text \<open>In the cloned child only descriptors of \<open>F\<close>, or opened by the program, are closed.\<close>

definition child_closes :: "fd set \<Rightarrow> ('w, 'e, handled) io \<Rightarrow> bool" where
  "child_closes F m \<longleftrightarrow>
     emits m (\<lambda>_ _. True)
       (\<lambda>h es. h \<noteq> Served \<longrightarrow> set_mset (closed_fds es) \<subseteq> F \<union> set_mset (opened_fds es))"

lemma closes_only: "only (\<lambda>c. \<forall>f. c = Fd (CloseFd f) \<longrightarrow> f \<in> F) es \<Longrightarrow> set_mset (closed_fds es) \<subseteq> F"
proof (induction es)
  case (Cons ev es)
  then show ?case by (cases ev rule: closed_by.cases) auto
qed simp

lemma child_closes_send: "child_closes F (send_error k sock e)" "child_closes F (send_errno k sock)"
  unfolding child_closes_def
  by (rule emits_weaken [OF emits_send_error [where E = "\<lambda>_ _. False"]]; simp)
    (rule emits_weaken [OF emits_send_errno [where E = "\<lambda>_ _. False"]]; simp)

lemma child_closes_with_fds: "child_closes F m \<Longrightarrow> child_closes F (with_fds k fds m)"
  unfolding child_closes_def by (rule in_child_with_fds)

lemma served_with_fds:
  assumes "emits m (\<lambda>_ _. True) (\<lambda>h _. h = Served)"
  shows "emits (with_fds k fds m) (\<lambda>_ _. True) (\<lambda>h _. h = Served)"
  unfolding with_fds_def
proof (rule emits_bnd, rule emits_attempt, rule emits_weaken [OF assms])
  have close: "emits (bnd (close_all k fds) (\<lambda>_. lift r)) (\<lambda>_ _. True) (\<lambda>h _. h = Served)"
    if "\<And>h. r = Inr h \<Longrightarrow> h = Served" for r
    using that by (intro emits_bnd emits_weaken [OF emits_close_all [where E = "\<lambda>_ _. False"]]) (auto intro!: emits_lift)
  show "emits (case Inl e of Inr (InChild e) \<Rightarrow> ret (InChild e) | _ \<Rightarrow> bnd (close_all k fds) (\<lambda>_. lift (Inl e)))
      (\<lambda>_ _. True) (\<lambda>h _. h = Served)" for e
    using close [of "Inl e"] by simp
  show "h = Served \<Longrightarrow> emits (case Inr h of Inr (InChild e) \<Rightarrow> ret (InChild e) | _ \<Rightarrow> bnd (close_all k fds) (\<lambda>_. lift (Inr h)))
      (\<lambda>_ _. True) (\<lambda>h _. h = Served)" for h
    using close [of "Inr Served"] by simp
qed

lemma child_closes_open:
  assumes "\<And>e. child_closes F (m1 e)" and "\<And>a. child_closes (F \<union> set (fds a)) (m2 a)"
    and "\<And>r. closed_by (c, r) = {#}" and "\<And>a. opened_by (c, Inr a) = mset (fds a)"
  shows "child_closes F (bnd (call_try k c) (\<lambda>r. case r of Inl e \<Rightarrow> m1 e | Inr a \<Rightarrow> with_fds k (fds a) (m2 a)))"
  unfolding child_closes_def
proof (rule emits_bnd, rule emits_call_try)
  fix r
  show "emits (case r of Inl e \<Rightarrow> m1 e | Inr a \<Rightarrow> with_fds k (fds a) (m2 a)) (\<lambda>_ _. True)
     (\<lambda>h es'. h \<noteq> Served \<longrightarrow> set_mset (closed_fds ([(c, r)] @ es')) \<subseteq> F \<union> set_mset (opened_fds ([(c, r)] @ es')))"
  proof (cases r)
    case (Inl e)
    then show ?thesis
      by (auto intro!: emits_weaken [OF assms(1) [unfolded child_closes_def]] simp: assms(3))
  next
    case (Inr a)
    from child_closes_with_fds [OF assms(2)]
    have "emits (with_fds k (fds a) (m2 a)) (\<lambda>_ _. True)
        (\<lambda>h es. h \<noteq> Served \<longrightarrow> set_mset (closed_fds es) \<subseteq> (F \<union> set (fds a)) \<union> set_mset (opened_fds es))"
      unfolding child_closes_def .
    then have "emits (with_fds k (fds a) (m2 a)) (\<lambda>_ _. True)
        (\<lambda>h es'. h \<noteq> Served \<longrightarrow> set_mset (closed_fds ([(c, Inr a)] @ es')) \<subseteq> F \<union> set_mset (opened_fds ([(c, Inr a)] @ es')))"
      by (rule emits_weaken) (auto simp: assms(3,4))
    with Inr show ?thesis by simp
  qed
qed

text \<open>The child closes only descriptors it was cloned with.\<close>

lemma child_run_closes:
  fixes efd sl m :: fd and ep sp :: answer
  assumes "F = {m, sl, efd, pipe_end ep 0, pipe_end ep 1, pipe_end sp 0, pipe_end sp 1}"
    and "ctx = \<lparr>cc_req = req, cc_sync_read_fd = efd, cc_slave_fd = sl,
            cc_stderr_write_fd = pipe_end sp 1, cc_err_pipe_write = pipe_end ep 1\<rparr>"
  shows "emits (child_run k sys ctx) (\<lambda>_ es. set_mset (closed_fds es) \<subseteq> F) (\<lambda>_ es. set_mset (closed_fds es) \<subseteq> F)"
proof -
  have "stays (\<lambda>c. \<forall>f. c = Fd (CloseFd f) \<longrightarrow> f \<in> F) (child_run k sys ctx)"
    by (rule stays_mono [OF stays_child_run]) (auto simp: child_call_def assms)
  then show ?thesis unfolding stays_def by (rule emits_weaken) (rule closes_only, assumption)+
qed

lemma child_closes_clone:
  "child_closes {m, sl, efd, pipe_end ep 0, pipe_end ep 1, pipe_end sp 0, pipe_end sp 1} (clone_child k sys sock m sl req efd ep sp)"
  (is "child_closes ?F _")
  unfolding child_closes_def clone_child_def
proof (rule emits_bnd, rule emits_attempt, rule emits_weaken [OF emits_clone3])
  show "emits (case Inl e of Inl e \<Rightarrow> send_error k sock e | Inr None \<Rightarrow> X | Inr (Some c) \<Rightarrow> Y c)
      (\<lambda>_ _. True) (\<lambda>h es'. h \<noteq> Served \<longrightarrow> P es')" for e X Y P
    by (auto intro!: emits_weaken [OF emits_send_error [where E = "\<lambda>_ _. False"]])
next
  fix c :: "clone_result option" and es :: "event list"
  let ?ctx = "\<lparr>cc_req = req, cc_sync_read_fd = efd, cc_slave_fd = sl,
            cc_stderr_write_fd = pipe_end sp 1, cc_err_pipe_write = pipe_end ep 1\<rparr>"
  assume "\<exists>a. es = [(Proc (Clone3 CLONE_FLAGS (word_of_int SIGCHLD)), Inr a)] \<and>
       (case c of None \<Rightarrow> ans_num a = 0
        | Some c \<Rightarrow> ans_num a \<noteq> 0 \<and> cr_child_pid c = word_of_int (ans_num a) \<and>
            cr_pidfd c = (case ans_fds a of [] \<Rightarrow> - 1 | f # _ \<Rightarrow> f))"
  then have es: "closed_fds es = {#}" by auto
  have run: "emits (bnd (attempt (child_run k sys ?ctx)) (\<lambda>e. ret (InChild e))) (\<lambda>_ _. True)
      (\<lambda>_ es'. set_mset (closed_fds es') \<subseteq> ?F)"
    by (rule emits_bnd, rule emits_attempt, rule emits_weaken [OF child_run_closes [OF refl refl]]; rule emits_ret) simp_all
  have parent: "emits (with_fds k [cr_pidfd x] (release_child k sock req efd x (pipe_end ep 0) (pipe_end sp 0)))
      (\<lambda>_ _. True) (\<lambda>h es'. h \<noteq> Served \<longrightarrow> P es')" for x P
    by (rule emits_weaken, rule served_with_fds, rule emits_weaken [OF emits_release]) simp_all
  show "emits (case Inr c of Inl e \<Rightarrow> send_error k sock e
      | Inr None \<Rightarrow> bnd (close_all k [m, pipe_end ep 0, pipe_end sp 0]) (\<lambda>_. bnd (attempt (child_run k sys ?ctx)) (\<lambda>e. ret (InChild e)))
      | Inr (Some c) \<Rightarrow> with_fds k [cr_pidfd c] (release_child k sock req efd c (pipe_end ep 0) (pipe_end sp 0)))
      (\<lambda>_ _. True) (\<lambda>h es'. h \<noteq> Served \<longrightarrow> set_mset (closed_fds (es @ es')) \<subseteq> ?F \<union> set_mset (opened_fds (es @ es')))"
  proof (cases c)
    case None
    show ?thesis
      unfolding None sum.case option.case
    proof (rule emits_bnd, rule emits_weaken [OF emits_close_all [where E = "\<lambda>_ _. False"]], simp)
      fix x and es' :: "event list"
      assume "calls_of es' = map (\<lambda>f. Fd (CloseFd f)) [m, pipe_end ep 0, pipe_end sp 0]"
      from closes_events [OF this] es
      show "emits (bnd (attempt (child_run k sys ?ctx)) (\<lambda>e. ret (InChild e))) (\<lambda>_ _. True)
          (\<lambda>h es''. h \<noteq> Served \<longrightarrow> set_mset (closed_fds (es @ es' @ es'')) \<subseteq> ?F \<union> set_mset (opened_fds (es @ es' @ es'')))"
        by (intro emits_weaken [OF run]) auto
    qed
  qed (use parent in simp)
qed

lemma child_closes_serve: "child_closes {m, sl} (serve_request k sys sock m sl req)"
proof -
  have perm: "child_closes F (clone_child k sys sock m sl req efd ep sp)"
    if "F = {m, sl, efd, pipe_end ep 0, pipe_end ep 1, pipe_end sp 0, pipe_end sp 1}" for F efd ep sp
    using child_closes_clone that by simp
  show ?thesis
    unfolding serve_request_def
    by (intro child_closes_open child_closes_send perm) (auto simp: add_mset_commute)
qed

lemma child_closes_handle: "child_closes {} (handle_one_request k sys sock)"
  unfolding child_closes_def handle_one_request_def
proof (rule emits_bnd, rule emits_weaken [OF emits_receive], simp)
  fix x :: "fd \<times> fd \<times> spawn_request option" and es
  assume x: "closed_fds es = {#} \<and> opened_fds es = {#fst x, fst (snd x)#}"
  obtain m sl req where [simp]: "x = (m, sl, req)" by (cases x)
  have "child_closes {m, sl} (with_fds k [sl, m] (case req of None \<Rightarrow> send_error k sock EINVAL | Some r \<Rightarrow> serve_request k sys sock m sl r))"
    by (cases req) (simp_all add: child_closes_with_fds child_closes_send child_closes_serve)
  with x show "emits (case x of (m, sl, req) \<Rightarrow> with_fds k [sl, m]
       (case req of None \<Rightarrow> send_error k sock EINVAL | Some r \<Rightarrow> serve_request k sys sock m sl r))
     (\<lambda>_ _. True) (\<lambda>h es'. h \<noteq> Served \<longrightarrow> set_mset (closed_fds (es @ es')) \<subseteq> {} \<union> set_mset (opened_fds (es @ es')))"
    by (auto simp: child_closes_def elim!: emits_weaken)
qed

text \<open>Wherever the server's process ends up, in its loop or in a child, it closes only what it opened.\<close>

lemma emits_serve_closes:
  fixes k :: "'w kernel"
  shows "emits (serve k sys sock n :: ('w, 'e, server_end) io) (\<lambda>_ _. False)
    (\<lambda>e es. e \<noteq> Stopped \<longrightarrow> set_mset (closed_fds es) \<subseteq> set_mset (opened_fds es))"
proof (induction n)
  case 0
  show ?case by (simp add: emits_def)
next
  case (Suc n)
  have more: "emits (serve k sys sock n :: ('w, 'e, server_end) io) (\<lambda>_ _. False)
      (\<lambda>e es'. e \<noteq> Stopped \<longrightarrow> set_mset (closed_fds (es @ es')) \<subseteq> set_mset (opened_fds (es @ es')))"
    if "balanced es" for es
    using that by (intro emits_weaken [OF Suc.IH]) (auto simp: balanced_def)
  show ?case
    unfolding serve.simps
  proof (rule emits_bnd, rule emits_attempt,
      rule emits_weaken [OF emits_conj [OF handle_balance child_closes_handle [unfolded child_closes_def]]])
    fix h es
    assume h: "((\<exists>e. h = InChild e) \<or> balanced es) \<and>
      (h \<noteq> Served \<longrightarrow> set_mset (closed_fds es) \<subseteq> {} \<union> set_mset (opened_fds es))"
    show "emits (case Inr h of Inl _ \<Rightarrow> bnd (call_ignore k (Proc (ExitProcess 0))) (\<lambda>_. ret Stopped)
        | Inr (InChild e) \<Rightarrow> ret (ChildOf e) | Inr Served \<Rightarrow> (serve k sys sock n :: ('w, 'e, server_end) io))
        (\<lambda>_ _. False) (\<lambda>e es'. e \<noteq> Stopped \<longrightarrow> set_mset (closed_fds (es @ es')) \<subseteq> set_mset (opened_fds (es @ es')))"
      using h more by (cases h) (auto simp: emits_def)
  qed (auto intro!: emits_rules)
qed

text \<open>The marks of the descriptors above 2 are left alone, and none of them is replaced.\<close>

definition keeps_flags :: "call \<Rightarrow> bool" where
  "keeps_flags c \<longleftrightarrow>
     (\<forall>n f. c \<noteq> Fd (CloseRangeCloexec n) \<and> c \<noteq> Fd (ClearCloexec f)) \<and> (\<forall>g h. c = Fd (Dup2 g h) \<longrightarrow> h \<in> {0, 1, 2})"

lemma keeps_flags_simps [simp]: "keeps_flags (Fd (CloseFd f))" "keeps_flags (Proc p)"
  by (simp_all add: keeps_flags_def)

lemma slot_kept:
  assumes "keeps_flags (fst ev)" and "2 < f" and "fst ev \<noteq> Fd (CloseFd f)" and "f \<notin># opened_by ev"
  shows "slot_step f ev Kept = Kept"
  using assms by (cases "(f, ev, Kept)" rule: slot_step.cases) (auto simp: keeps_flags_def)

lemma slot_after_kept:
  "only keeps_flags es \<Longrightarrow> 2 < f \<Longrightarrow> Fd (CloseFd f) \<notin> set (calls_of es) \<Longrightarrow> f \<notin># opened_fds es \<Longrightarrow>
   slot_after f es Kept = Kept"
  by (induction es) (auto simp: slot_after_def slot_kept)

lemma stays_close_all [stays_rules]: "(\<And>f. N (Fd (CloseFd f))) \<Longrightarrow> stays N (close_all k fds)"
  unfolding close_all_def by (intro stays_rules) auto

lemma stays_with_fds [stays_rules]: "(\<And>f. N (Fd (CloseFd f))) \<Longrightarrow> stays N m \<Longrightarrow> stays N (with_fds k fds m)"
  unfolding with_fds_def by (intro stays_rules; (simp split: sum.splits handled.splits)?) (auto intro!: stays_rules)

lemma stays_flags_clone: "stays keeps_flags (clone_child k sys sock m sl req efd ep sp)"
proof -
  have "stays keeps_flags (child_run k sys ctx)" for ctx
    by (rule stays_mono [OF stays_child_run]) (auto simp: child_call_def keeps_flags_def)
  moreover have "stays keeps_flags (release_child k sock req efd c rd rd')" for c rd rd'
    unfolding release_child_def write_cgroup_procs_def write_uid_gid_maps_def send_error_def send_errno_def Let_def
    by (auto intro!: stays_rules simp: keeps_flags_def split: sum.splits)
  ultimately show ?thesis
    unfolding clone_child_def clone3_sandbox_def send_error_def Let_def
    by (auto intro!: stays_rules simp: keeps_flags_def split: sum.splits option.splits)
qed

lemma stays_flags_handle: "stays keeps_flags (handle_one_request k sys sock)"
  unfolding handle_one_request_def receive_request_def serve_request_def send_error_def send_errno_def Let_def
  by (auto intro!: stays_rules stays_flags_clone simp: keeps_flags_def split: sum.splits option.splits list.splits)

lemma stays_flags_serve: "stays keeps_flags (serve k sys sock n)"
proof (induction n)
  case (Suc n)
  then show ?case
    by (auto intro!: stays_rules stays_flags_handle split: sum.splits handled.splits)
qed (simp only: serve.simps stays_simple)

subsection \<open>The child that executes\<close>

definition exec_last :: "event list \<Rightarrow> bool" where
  "exec_last es \<longleftrightarrow> (\<exists>pre p av env x. es = pre @ [(Proc (Execve p av env), Inr x)])"

lemma exec_last_append: "exec_last es \<Longrightarrow> exec_last (es' @ es)"
  unfolding exec_last_def by (metis append_assoc)

definition execs_last :: "('w, 'e, handled) io \<Rightarrow> bool" where
  "execs_last m \<longleftrightarrow>
     emits m (\<lambda>_ _. True) (\<lambda>h es. h \<noteq> Served \<longrightarrow> h = InChild (Inr Execed) \<longrightarrow> exec_last es)"

lemma execs_last_bnd:
  assumes "emits m (\<lambda>_ _. True) (\<lambda>_ _. True)" and "\<And>x. execs_last (f x)" shows "execs_last (bnd m f)"
  unfolding execs_last_def
  by (rule emits_bnd, rule emits_weaken [OF assms(1)], simp, rule emits_weaken [OF assms(2) [unfolded execs_last_def]])
    (auto intro: exec_last_append)

lemma execs_last_served: "emits m (\<lambda>_ _. True) (\<lambda>h _. h = Served) \<Longrightarrow> execs_last m"
  unfolding execs_last_def by (erule emits_weaken) simp_all

lemma execs_last_send: "execs_last (send_error k sock e)" "execs_last (send_errno k sock)"
  by (rule execs_last_served, rule emits_weaken [OF emits_send_error [where E = "\<lambda>_ _. False"]]; simp)
    (rule execs_last_served, rule emits_weaken [OF emits_send_errno [where E = "\<lambda>_ _. False"]]; simp)

lemma execs_last_with_fds: "execs_last m \<Longrightarrow> execs_last (with_fds k fds m)"
  unfolding execs_last_def by (rule in_child_with_fds)

lemma execs_last_open:
  "(\<And>e. execs_last (m1 e)) \<Longrightarrow> (\<And>a. execs_last (m2 a)) \<Longrightarrow>
   execs_last (bnd (call_try k c) (\<lambda>r. case r of Inl e \<Rightarrow> m1 e | Inr a \<Rightarrow> with_fds k (fds a) (m2 a)))"
  by (rule execs_last_bnd) (auto intro!: emits_call_try execs_last_with_fds split: sum.splits)

lemma execs_last_child: "execs_last (bnd (attempt (child_run k sys ctx)) (\<lambda>e. ret (InChild e)))"
  unfolding execs_last_def
  by (rule emits_bnd, rule emits_attempt, rule emits_weaken [OF emits_child_run])
    (auto intro!: emits_ret simp: setup_done_def exec_last_def)

lemma execs_last_clone: "execs_last (clone_child k sys sock m sl req efd ep sp)"
  unfolding clone_child_def
proof (rule execs_last_bnd)
  show "emits (attempt (clone3_sandbox k)) (\<lambda>_ _. True) (\<lambda>_ _. True)"
    by (rule emits_attempt, rule emits_weaken [OF emits_clone3]) simp_all
next
  fix r :: "errno + clone_result option"
  have parent: "execs_last (with_fds k [cr_pidfd c] (release_child k sock req efd c (pipe_end ep 0) (pipe_end sp 0)))" for c
    by (rule execs_last_served, rule served_with_fds, rule emits_weaken [OF emits_release]) simp_all
  have child: "execs_last (bnd (close_all k fds) (\<lambda>_. bnd (attempt (child_run k sys ctx)) (\<lambda>e. ret (InChild e))))" for fds ctx
    by (rule execs_last_bnd, rule emits_weaken [OF emits_close_all [where E = "\<lambda>_ _. False"]])
      (simp_all add: execs_last_child)
  show "execs_last (case r of
      Inl e \<Rightarrow> send_error k sock e
    | Inr None \<Rightarrow>
        bnd (close_all k [m, pipe_end ep 0, pipe_end sp 0]) (\<lambda>_.
        bnd (attempt (child_run k sys \<lparr>cc_req = req, cc_sync_read_fd = efd, cc_slave_fd = sl,
            cc_stderr_write_fd = pipe_end sp 1, cc_err_pipe_write = pipe_end ep 1\<rparr>)) (\<lambda>e. ret (InChild e)))
    | Inr (Some c) \<Rightarrow> with_fds k [cr_pidfd c] (release_child k sock req efd c (pipe_end ep 0) (pipe_end sp 0)))"
    using parent child by (auto simp: execs_last_send split: sum.splits option.splits)
qed

lemma execs_last_handle: "execs_last (handle_one_request k sys sock)"
proof -
  have served: "execs_last (case req of None \<Rightarrow> send_error k sock EINVAL | Some r \<Rightarrow> serve_request k sys sock m sl r)"
    for req m sl
    unfolding serve_request_def
    by (cases req) (auto intro!: execs_last_open execs_last_send execs_last_clone)
  show ?thesis
    unfolding handle_one_request_def
    by (rule execs_last_bnd, rule emits_weaken [OF emits_receive])
      (auto intro!: execs_last_with_fds served split: prod.splits)
qed

lemma emits_serve_execs:
  fixes k :: "'w kernel"
  shows "emits (serve k sys sock n :: ('w, 'e, server_end) io) (\<lambda>_ _. False)
    (\<lambda>e es. e = ChildOf (Inr Execed) \<longrightarrow> exec_last es)"
proof (induction n)
  case (Suc n)
  have more: "emits (serve k sys sock n :: ('w, 'e, server_end) io) (\<lambda>_ _. False)
      (\<lambda>e es'. e = ChildOf (Inr Execed) \<longrightarrow> exec_last (es @ es'))" for es
    by (rule emits_weaken [OF Suc.IH]) (auto intro: exec_last_append)
  show ?case
    unfolding serve.simps
  proof (rule emits_bnd, rule emits_attempt, rule emits_weaken [OF execs_last_handle [unfolded execs_last_def]])
    fix h es
    assume "h \<noteq> Served \<longrightarrow> h = InChild (Inr Execed) \<longrightarrow> exec_last es"
    then show "emits (case Inr h of Inl _ \<Rightarrow> bnd (call_ignore k (Proc (ExitProcess 0))) (\<lambda>_. ret Stopped)
        | Inr (InChild e) \<Rightarrow> ret (ChildOf e) | Inr Served \<Rightarrow> (serve k sys sock n :: ('w, 'e, server_end) io))
        (\<lambda>_ _. False) (\<lambda>e es'. e = ChildOf (Inr Execed) \<longrightarrow> exec_last (es @ es'))"
      using more by (cases h) (auto simp: emits_def)
  qed (auto intro!: emits_rules)
qed (simp add: emits_def)

section \<open>Examples\<close>

text \<open>A kernel that delivers the example request and does what the server asks.\<close>

fun example_reply :: "call \<Rightarrow> reply" where
  "example_reply (Sock (ReadExact _ _)) = Inr (done_ans\<lparr>ans_data := len_prefix (serialize example_request)\<rparr>)"
| "example_reply (Sock (RecvMsg _ _ _)) = Inr (done_ans\<lparr>ans_data := serialize example_request, ans_fds := [10, 11]\<rparr>)"
| "example_reply (Fd EventFd) = Inr (done_ans\<lparr>ans_num := 12\<rparr>)"
| "example_reply (Fd (Pipe2 fl)) = Inr (done_ans\<lparr>ans_fds := if fl = {} then [15, 16] else [13, 14]\<rparr>)"
| "example_reply (Proc (Clone3 _ _)) = Inr (done_ans\<lparr>ans_num := 4242, ans_fds := [17]\<rparr>)"
| "example_reply _ = Inr done_ans"

lemmas serve_run = handle_one_request_def receive_request_def with_fds_def serve_request_def clone_child_def
  clone3_sandbox_def release_child_def write_cgroup_procs_def write_uid_gid_maps_def send_error_def
  send_errno_def close_all_def pipe_end_def Let_def

lemma deserialize_example: "deserialize (serialize example_request) = Some example_request"
  by (rule deserialize_whole) (simp_all add: wf_example_request length_serialize_example)

lemma example_prefix: "prefix_len (len_prefix (serialize example_request)) = length (serialize example_request)"
  by (simp add: length_serialize_example)

section \<open>Properties\<close>

text \<open>
  C9. The server keeps no descriptor: whatever the kernel answers and however each request ends, when
  the server is back in its loop it has closed exactly the descriptors it received and opened.
\<close>

theorem server_never_leaks:
  assumes "serve k sys sock n s = (Inr Serving, t)"
  shows "\<exists>es. trace t = trace s @ es \<and> opened_fds es = closed_fds es"
  using emits_Inr [OF emits_serve assms] by (simp add: balanced_def)

theorem server_never_leaks_witness:
  "\<exists>t. serve (scripted example_reply) (\<lambda>_. 0) 3 1 fresh_os = (Inr Serving :: unit + server_end, t) \<and>
     opened_fds (trace t) = closed_fds (trace t) \<and> opened_fds (trace t) = {#10, 11, 12, 13, 14, 15, 16, 17#}"
proof -
  let ?run = "serve (scripted example_reply) (\<lambda>_. 0) 3 1 fresh_os :: (unit + server_end) \<times> unit os"
  have r: "?run = (Inr Serving, snd ?run)" and o: "opened_fds (trace (snd ?run)) = {#10, 11, 12, 13, 14, 15, 16, 17#}"
    by (simp_all add: run_defs serve_run example_prefix deserialize_example add_mset_commute)
  have "trace fresh_os = []" by (simp add: fresh_os_def)
  then have "opened_fds (trace (snd ?run)) = closed_fds (trace (snd ?run))"
    using server_never_leaks [OF r] by (metis append_Nil)
  with r o show ?thesis by metis
qed

text \<open>
  C12. A child is released only when it is set up, and every outcome is told: the release writes the
  child's pid to cgroup.procs, then the three maps, then signals the barrier, then sends the pid with
  the three descriptors. If the assignment or the maps fail, it sends the error and never signals the
  barrier; if the length of the response cannot be written, it stops there.
\<close>

theorem release_in_order:
  "\<exists>es. trace (snd (release_child k sock req efd c rd rd' s)) = trace s @ es \<and>
     (case fst (release_child k sock req efd c rd rd' s) of
        Inl _ \<Rightarrow> release_cut sock req efd c es
      | Inr h \<Rightarrow> h = Served \<and> (release_failed sock req c es \<or> release_done sock req efd c rd rd' es))"
proof (cases "release_child k sock req efd c rd rd' s")
  case (Pair r t)
  show ?thesis using emitsE [OF emits_release Pair] Pair by (metis fst_conv snd_conv)
qed

text \<open>
  C22. A request crosses the socket: what the client sent, if its length and its bytes arrive whole, is
  received by the server as the same request, with the two descriptors.
\<close>

theorem request_crosses_socket:
  assumes "wf_request req" and "length (serialize req) < 2 ^ 32"
    and "trace (snd (request_spawn k from_raw sock req m sl s)) = trace s @ es"
    and "Sock (WriteAll sock prefix) \<in> set (calls_of es)" and "Sock (SendMsg sock payload fds) \<in> set (calls_of es)"
    and "delivers k' sock' (world u) prefix 2 payload [m', sl']"
  shows "fds = [m, sl] \<and> fst (receive_request k' sock' u) = Inr (m', sl', Some req)"
proof -
  have "set (calls_of es) \<subseteq> {Sock LockMutex, Sock (WriteAll sock (len_prefix (serialize req))),
      Sock (SendMsg sock (serialize req) [m, sl]), Sock (ReadExact sock 4)} \<union> {Sock (RecvMsg sock n 3) | n. True}"
    using emits_both [OF emits_request_spawn, of k from_raw sock req m sl s] assms(3) by simp
  with assms(4,5) have p: "prefix = len_prefix (serialize req)" "payload = serialize req" "fds = [m, sl]"
    by (blast intro: sym)+
  have "deserialize (serialize req) = Some req" using assms(1,2) by (intro deserialize_whole) simp_all
  then show ?thesis using receive_delivered [OF assms(6)] assms(2) by (simp add: p)
qed

theorem request_crosses_socket_witness:
  "fst (receive_request (scripted example_reply) 9 fresh_os) = Inr (10, 11, Some example_request)"
proof -
  let ?run = "request_spawn obliging id 3 example_request 4 5 fresh_os"
  have tr: "calls_of (trace (snd ?run)) = [Sock LockMutex, Sock (WriteAll 3 (len_prefix (serialize example_request))),
      Sock (SendMsg 3 (serialize example_request) [4, 5]), Sock (ReadExact 3 4), Sock (RecvMsg 3 0 3)]"
    by (simp add: request_spawn_def run_defs Let_def prefix_len_def fill_buf_def decode_response_def)
  have d: "delivers (scripted example_reply) 9 (world fresh_os) (len_prefix (serialize example_request)) 2
      (serialize example_request) [10, 11]"
    by (simp add: delivers_def scripted_def)
  have e: "trace (snd ?run) = trace fresh_os @ trace (snd ?run)" by (simp add: fresh_os_def)
  have l: "length (serialize example_request) < 2 ^ 32" by (simp add: length_serialize_example)
  show ?thesis using request_crosses_socket [OF wf_example_request l e _ _ d] by (simp add: tr)
qed

text \<open>
  C24. The length of what arrives is not checked: when the last eight bytes of a request are missing, the
  server takes it as a request whose uid and gid are 0.
\<close>

theorem short_request_is_root:
  assumes "wf_request req" and "length (serialize req) < 2 ^ 32"
    and "delivers k sock (world s) (len_prefix (serialize req)) 2
      (take (length (serialize req) - 8) (serialize req)) [m, sl]"
  shows "fst (receive_request k sock s) = Inr (m, sl, Some (req\<lparr>rq_host_uid := 0, rq_host_gid := 0\<rparr>))"
  using receive_delivered [OF assms(3)] short_request [OF assms(1,2)] assms(2) by simp

theorem short_request_is_root_witness:
  "fst (receive_request (scripted (\<lambda>c. case c of
      Sock (ReadExact f n) \<Rightarrow> Inr (done_ans\<lparr>ans_data := len_prefix (serialize example_request)\<rparr>)
    | _ \<Rightarrow> Inr (done_ans\<lparr>ans_data := take (length (serialize example_request) - 8) (serialize example_request),
        ans_fds := [10, 11]\<rparr>))) 3 fresh_os) =
   Inr (10, 11, Some (example_request\<lparr>rq_host_uid := 0, rq_host_gid := 0\<rparr>))"
  by (rule short_request_is_root) (simp_all add: wf_example_request length_serialize_example delivers_def scripted_def)

text \<open>
  C23. A response crosses the socket: what the server sent on releasing a child, if it arrives whole, gives
  the client the child's pid and, in the right places, the three descriptors.
\<close>

theorem response_crosses_socket:
  assumes "trace (snd (release_child k sock req efd c rd rd' s)) = trace s @ es"
    and "Sock (WriteAll sock prefix) \<in> set (calls_of es)" and "Sock (SendMsg sock payload fds) \<in> set (calls_of es)"
    and "accepts k' sock' req' [m, sl] (world u) w"
    and "delivers k' sock' w prefix 3 payload [pidfd, err_rd, stderr_rd]"
  shows "fds = [cr_pidfd c, rd, rd'] \<and> fst (request_spawn k' from_raw sock' req' m sl u) =
    Inr \<lparr>sr_pidfd = pidfd, sr_err_pipe_rd = err_rd, sr_stderr_pipe_rd = stderr_rd, sr_child_pid = cr_child_pid c\<rparr>"
proof -
  have "release_failed sock req c es \<or> release_done sock req efd c rd rd' es"
  proof (cases "release_child k sock req efd c rd rd' s")
    case (Pair r t)
    obtain es' where "trace t = trace s @ es'" and c: "case r of Inl _ \<Rightarrow> release_cut sock req efd c es'
      | Inr h \<Rightarrow> h = Served \<and> (release_failed sock req c es' \<or> release_done sock req efd c rd rd' es')"
      by (rule emitsE [OF emits_release Pair])
    with Pair assms(1) have "es' = es" by simp
    moreover have "\<not> release_cut sock req efd c es"
      using assms(3) by (auto simp: release_cut_def procs_call_def maps_written_def map_calls_def simp del: set_map)
    ultimately show ?thesis using c by (cases r) auto
  qed
  from release_sends [OF this assms(3)] have d: "release_done sock req efd c rd rd' es"
    and "payload = encode_ok_response (cr_child_pid c)" "fds = [cr_pidfd c, rd, rd']" by simp_all
  with release_done_prefix [OF d assms(2)]
  have p: "payload = encode_ok_response (cr_child_pid c)" "fds = [cr_pidfd c, rd, rd']"
    "prefix = len_prefix (encode_ok_response (cr_child_pid c))" by simp_all
  have l: "length (encode_ok_response (cr_child_pid c)) < 2 ^ 32" by (simp add: encode_ok_response_def)
  then have "decode_response from_raw (fill_buf (prefix_len prefix) payload) = Some (Inr (cr_child_pid c))"
    unfolding p prefix_len_len_prefix [OF l] fill_buf_whole
    by (simp add: decode_response_def encode_ok_response_def RESP_OK_def)
  then show ?thesis using request_answered [OF assms(4,5)] by (simp add: p)
qed

theorem response_crosses_socket_witness:
  "fst (request_spawn (scripted (\<lambda>c. case c of
      Sock (ReadExact f n) \<Rightarrow> Inr (done_ans\<lparr>ans_data := len_prefix (encode_ok_response 4242)\<rparr>)
    | _ \<Rightarrow> Inr (done_ans\<lparr>ans_data := encode_ok_response 4242, ans_fds := [20, 21, 22]\<rparr>))) id 3 example_request 4 5 fresh_os) =
   Inr \<lparr>sr_pidfd = 20, sr_err_pipe_rd = 21, sr_stderr_pipe_rd = 22, sr_child_pid = 4242\<rparr>"
  (is "fst (request_spawn ?k id 3 example_request 4 5 fresh_os) = _")
proof -
  let ?c = "\<lparr>cr_child_pid = 4242, cr_pidfd = 17\<rparr>"
  let ?run = "release_child obliging 9 example_request 12 ?c 13 15 fresh_os"
  have tr: "Sock (WriteAll 9 (len_prefix (encode_ok_response 4242))) \<in> set (calls_of (trace (snd ?run)))"
    "Sock (SendMsg 9 (encode_ok_response 4242) [17, 13, 15]) \<in> set (calls_of (trace (snd ?run)))"
    by (simp_all add: run_defs serve_run)
  have a: "accepts ?k 3 example_request [4, 5] (world fresh_os) ()"
    and d: "delivers ?k 3 () (len_prefix (encode_ok_response 4242)) 3 (encode_ok_response 4242) [20, 21, 22]"
    by (simp_all add: delivers_def accepts_def scripted_def)
  have "trace (snd ?run) = trace fresh_os @ trace (snd ?run)" by (simp add: fresh_os_def)
  from response_crosses_socket [OF this tr a d, of id] show ?thesis by simp
qed

text \<open>
  C25. The control socket leaks into the sandbox: in a process that ends as an executed program, if the
  server's unmarking of its socket succeeded and the kernel never handed out the number of the open socket
  for another file, the socket is still open after the \<open>execve\<close>: no call since closed it, replaced it or
  marked it close-on-exec again.
\<close>

theorem control_socket_inherited:
  assumes "fork_server_main k sys sock n s = (Inr (ChildOf (Inr Execed)), t)" and "trace t = trace s @ es"
    and "(Fd (ClearCloexec sock), Inr a) \<in> set es" and "2 < sock" and "sock \<notin># opened_fds es"
    and "slot \<noteq> Gone"
  shows "slot_after sock es slot = Kept \<and> (\<exists>pre p av env x. es = pre @ [(Proc (Execve p av env), Inr x)])"
proof -
  have "emits (serve k sys sock n) (\<lambda>_ _. False) (\<lambda>e es. e = ChildOf (Inr Execed) \<longrightarrow>
      only keeps_flags es \<and> set_mset (closed_fds es) \<subseteq> set_mset (opened_fds es) \<and> exec_last es)"
    by (rule emits_weaken [OF emits_conj [OF emits_serve_closes emits_conj [OF stays_flags_serve [unfolded stays_def]
        emits_serve_execs]]]) auto
  then have "emits (fork_server_main k sys sock n) (\<lambda>_ _. False) (\<lambda>e es. e = ChildOf (Inr Execed) \<longrightarrow>
      (\<exists>r1 r2 r3 r4 es'. es = [(Proc UnblockSigchld, r1), (Proc HandleSigchld, r2), (Fd (CloseRangeCloexec 3), r3),
          (Fd (ClearCloexec sock), r4)] @ es' \<and>
        only keeps_flags es' \<and> set_mset (closed_fds es') \<subseteq> set_mset (opened_fds es') \<and> exec_last es'))"
    unfolding fork_server_main_def by (intro emits_bnd emits_call_ignore) (erule emits_weaken, auto)
  from emits_Inr [OF this assms(1)] assms(2) obtain r1 r2 r3 r4 es' where
    es: "es = [(Proc UnblockSigchld, r1), (Proc HandleSigchld, r2), (Fd (CloseRangeCloexec 3), r3),
       (Fd (ClearCloexec sock), r4)] @ es'"
    and es': "only keeps_flags es'" "set_mset (closed_fds es') \<subseteq> set_mset (opened_fds es')" "exec_last es'" by auto
  have "(Fd (ClearCloexec sock), Inr a) \<notin> set es'" using es'(1) by (auto simp: only_def keeps_flags_def)
  then have r4: "r4 = Inr a" using assms(3) es by auto
  have closed: "Fd (CloseFd f) \<in> set (calls_of es') \<Longrightarrow> f \<in># closed_fds es'" for f
    by (induction es') auto
  have "Fd (CloseFd sock) \<notin> set (calls_of es')" "sock \<notin># opened_fds es'" using closed es'(2) assms(5) es by auto
  then have "slot_after sock es' Kept = Kept" using slot_after_kept [OF es'(1) assms(4)] by simp
  moreover have "slot_after sock es slot = slot_after sock es' Kept"
    using assms(4,6) by (cases slot; cases r1; cases r2; cases r3) (simp_all add: es r4 slot_after_def)
  moreover have "exec_last es" unfolding es by (rule exec_last_append [OF es'(3)])
  ultimately show ?thesis by (simp add: exec_last_def)
qed

text \<open>In the example the socket is descriptor 3, which no call of the kernel gives again.\<close>

fun child_reply :: "call \<Rightarrow> reply" where
  "child_reply (Proc (Clone3 _ _)) = Inr done_ans"
| "child_reply (Fd (ReadFd _ _)) = Inr (done_ans\<lparr>ans_num := 8\<rparr>)"
| "child_reply (Lsm l) = Inr (done_ans\<lparr>ans_num := 8\<rparr>)"
| "child_reply c = example_reply c"

lemma example_fields:
  "rq_workspace_path example_request = ''/tmp/ws''"
  "rq_extra_ro_mounts example_request = [(''/usr'', ''/usr''), (''/opt/lib'', ''/lib'')]"
  "rq_argv example_request = [''/bin/sh'', ''-c'', ''true'']"
  by (simp_all add: example_request_def)

theorem control_socket_inherited_witness:
  "\<exists>t. fork_server_main (scripted child_reply) (\<lambda>_. 0) 3 1 fresh_os =
      (Inr (ChildOf (Inr Execed)) :: unit + server_end, t) \<and>
    slot_after 3 (trace t) Marked = Kept \<and> slot_after 12 (trace t) Marked = Gone"
proof -
  let ?run = "fork_server_main (scripted child_reply) (\<lambda>_. 0) 3 1 fresh_os :: (unit + server_end) \<times> unit os"
  have r: "?run = (Inr (ChildOf (Inr Execed)), snd ?run)" and o: "3 \<notin># opened_fds (trace (snd ?run))"
    and c: "(Fd (ClearCloexec 3), Inr done_ans) \<in> set (trace (snd ?run))"
    and g: "slot_after 12 (trace (snd ?run)) Marked = Gone"
    by (simp_all add: fork_server_main_def run_defs serve_run child_code mount_run example_fields example_prefix
        deserialize_example slot_after_def)
  have "trace (snd ?run) = trace fresh_os @ trace (snd ?run)" by (simp add: fresh_os_def)
  from control_socket_inherited [OF r this c _ o, of Marked] r g show ?thesis by (intro exI [of _ "snd ?run"]) simp
qed

end
