(* ===== verification/Config.thy ===== *)
theory Config
  imports Errors
begin

text \<open>
  \<^verbatim>\<open>src/config.rs\<close>: the configuration of one execution and \<open>SandboxConfig::validate\<close>.
  \<open>checks\<close> lists what \<open>validate\<close> asks, in order, each with its message.
\<close>

section \<open>Definitions\<close>

record duration =
  as_secs :: u64
  subsec_nanos :: u32

definition is_zero :: "duration \<Rightarrow> bool" where
  "is_zero d \<longleftrightarrow> as_secs d = 0 \<and> subsec_nanos d = 0"

record resource_limits =
  max_open_files :: u64
  max_file_size_bytes :: u64
  stack_size_bytes :: u64

record sandbox_config =
  workspace_path :: path
  memory_max_bytes :: u64
  cpu_quota_us :: u64
  cpu_period_us :: u64
  pids_max :: u32
  ttl :: duration
  argv :: "string list"
  env :: "(string \<times> string) list"
  limits :: resource_limits
  cgroup_parent :: path
  extra_ro_mounts :: "(path \<times> path) list"

fun validate_mounts :: "(path \<times> path) list \<Rightarrow> sandbox_error + unit" where
  "validate_mounts [] = Inr ()"
| "validate_mounts ((host, sandbox) # ms) =
     (if \<not> is_absolute host then
        Inl (ConfigInvalid ''extra_ro_mounts: host path must be absolute'')
      else if \<not> is_absolute sandbox then
        Inl (ConfigInvalid ''extra_ro_mounts: sandbox path must be absolute'')
      else validate_mounts ms)"

definition validate :: "sandbox_config \<Rightarrow> sandbox_error + unit" where
  "validate c =
     (if argv c = [] then Inl (ConfigInvalid ''argv must not be empty'')
      else if cpu_period_us c = 0 then Inl (ConfigInvalid ''cpu_period_us must be non-zero'')
      else if cpu_quota_us c = 0 then Inl (ConfigInvalid ''cpu_quota_us must be non-zero'')
      else if cpu_quota_us c > cpu_period_us c then
        Inl (ConfigInvalid ''cpu_quota_us must not exceed cpu_period_us (that would mean >100% of one CPU)'')
      else if memory_max_bytes c = 0 then Inl (ConfigInvalid ''memory_max_bytes must be non-zero'')
      else if pids_max c = 0 then Inl (ConfigInvalid ''pids_max must be non-zero'')
      else if is_zero (ttl c) then Inl (ConfigInvalid ''ttl must be non-zero'')
      else if \<not> is_absolute (workspace_path c) then
        Inl (ConfigInvalid ''workspace_path must be absolute'')
      else if \<not> is_absolute (cgroup_parent c) then
        Inl (ConfigInvalid ''cgroup_parent must be absolute'')
      else
        case validate_mounts (extra_ro_mounts c) of
          Inl e \<Rightarrow> Inl e
        | Inr _ \<Rightarrow>
            if stack_size_bytes (limits c) = 0 then
              Inl (ConfigInvalid ''stack_size_bytes must be non-zero'')
            else Inr ())"

subsection \<open>The specification\<close>

definition mount_checks :: "path \<times> path \<Rightarrow> (bool \<times> string) list" where
  "mount_checks m =
     [(is_absolute (fst m), ''extra_ro_mounts: host path must be absolute''),
      (is_absolute (snd m), ''extra_ro_mounts: sandbox path must be absolute'')]"

definition checks :: "sandbox_config \<Rightarrow> (bool \<times> string) list" where
  "checks c =
     [(argv c \<noteq> [], ''argv must not be empty''),
      (0 < cpu_period_us c, ''cpu_period_us must be non-zero''),
      (0 < cpu_quota_us c, ''cpu_quota_us must be non-zero''),
      (cpu_quota_us c \<le> cpu_period_us c,
        ''cpu_quota_us must not exceed cpu_period_us (that would mean >100% of one CPU)''),
      (0 < memory_max_bytes c, ''memory_max_bytes must be non-zero''),
      (0 < pids_max c, ''pids_max must be non-zero''),
      (\<not> is_zero (ttl c), ''ttl must be non-zero''),
      (is_absolute (workspace_path c), ''workspace_path must be absolute''),
      (is_absolute (cgroup_parent c), ''cgroup_parent must be absolute'')] @
     concat (map mount_checks (extra_ro_mounts c)) @
     [(0 < stack_size_bytes (limits c), ''stack_size_bytes must be non-zero'')]"

definition first_failure :: "(bool \<times> string) list \<Rightarrow> sandbox_error + unit" where
  "first_failure cs =
     (case find (\<lambda>c. \<not> fst c) cs of None \<Rightarrow> Inr () | Some c \<Rightarrow> Inl (ConfigInvalid (snd c)))"

definition valid_config :: "sandbox_config \<Rightarrow> bool" where
  "valid_config c \<longleftrightarrow> list_all fst (checks c)"

text \<open>A valid configuration, for the examples.\<close>

definition example_config :: sandbox_config where
  "example_config = \<lparr>workspace_path = ''/w'', memory_max_bytes = 64, cpu_quota_us = 50, cpu_period_us = 100,
     pids_max = 8, ttl = \<lparr>as_secs = 5, subsec_nanos = 0\<rparr>, argv = [''/b'', ''x''], env = [(''A'', ''1'')],
     limits = \<lparr>max_open_files = 4, max_file_size_bytes = 9, stack_size_bytes = 7\<rparr>,
     cgroup_parent = ''/c'', extra_ro_mounts = [(''/u'', ''/u'')]\<rparr>"

section \<open>Lemmas\<close>

lemma first_failure_simps [simp]:
  "first_failure [] = Inr ()"
  "first_failure ((b, m) # cs) = (if b then first_failure cs else Inl (ConfigInvalid m))"
  by (simp_all add: first_failure_def)

lemma first_failure_append:
  "first_failure (xs @ ys) = (case first_failure xs of Inl e \<Rightarrow> Inl e | Inr _ \<Rightarrow> first_failure ys)"
  by (induction xs) auto

lemma validate_mounts_first_failure:
  "validate_mounts ms = first_failure (concat (map mount_checks ms))"
  by (induction ms rule: validate_mounts.induct) (simp_all add: mount_checks_def)

lemma first_failure_ok: "first_failure cs = Inr () \<longleftrightarrow> list_all fst cs"
  by (induction cs) (auto split: if_splits)

lemma word_pos_iff [simp]: "0 < (w :: 'a::len word) \<longleftrightarrow> w \<noteq> 0"
  by (simp add: word_gt_0)

lemma check_step:
  "r = first_failure cs \<Longrightarrow> b' \<longleftrightarrow> \<not> b \<Longrightarrow>
     (if b' then Inl (ConfigInvalid m) else r) = first_failure ((b, m) # cs)"
  by simp

lemma validate_first_failure: "validate c = first_failure (checks c)"
  unfolding validate_def checks_def append_Cons append_Nil
  by (intro check_step; (simp add: not_le)?)
    (simp add: validate_mounts_first_failure first_failure_append split: sum.split)

lemma validate_ok: "validate c = Inr () \<longleftrightarrow> valid_config c"
  by (simp add: validate_first_failure first_failure_ok valid_config_def)

section \<open>Properties\<close>

text \<open>
  C21. \<open>validate\<close> accepts a configuration exactly when every check of the list holds, and
  otherwise reports the first check of the list that fails, with its message.
\<close>

theorem validate_reports_first_failure:
  "(validate c = Inr () \<longleftrightarrow> list_all fst (checks c)) \<and>
   validate c =
     (case find (\<lambda>p. \<not> fst p) (checks c) of
        None \<Rightarrow> Inr ()
      | Some p \<Rightarrow> Inl (ConfigInvalid (snd p)))"
  using validate_ok [of c] by (simp add: validate_first_failure first_failure_def valid_config_def)

end
