(* ===== verification/Collect.thy ===== *)
theory Collect
  imports ForkServer Config
begin

text \<open>
  \<open>collect_output\<close> of \<^verbatim>\<open>src/supervisor.rs\<close>: the two outputs of a program are read until both end, or a
  read fails, or the time limit expires. The asynchronous loop is a sequence of \<open>SelectReadable\<close>
  calls, one a round, each answered with the readable descriptors, of which the first in the order of the
  branches is served; an answer with none of them is the timer's. It runs on fuel, the number of rounds looked at, and a
  collection whose fuel ends first has the value None: nothing is said of what it does next. A \<open>read\<close>
  answers the bytes it read.
\<close>

section \<open>Definitions\<close>

datatype read_step = Got "u8 list" | WouldBlock | ReadFailed io_error

definition read_master :: "'w kernel \<Rightarrow> fd \<Rightarrow> ('w, 'e, read_step) io" where
  "read_master k fd =
     bnd (call_try k (Fd (ReadFd fd 4096))) (\<lambda>r.
     case r of
       Inr a \<Rightarrow> ret (Got (ans_data a))
     | Inl _ \<Rightarrow> bnd get_errno (\<lambda>e.
         ret (if e = EIO then Got [] else if e = EAGAIN then WouldBlock else ReadFailed (OsError e))))"

definition read_stderr :: "'w kernel \<Rightarrow> fd \<Rightarrow> ('w, 'e, read_step) io" where
  "read_stderr k fd =
     bnd (call_try k (Fd (ReadFd fd 4096))) (\<lambda>r.
     case r of
       Inr a \<Rightarrow> ret (Got (ans_data a))
     | Inl _ \<Rightarrow> bnd get_errno (\<lambda>e. ret (if e = EAGAIN then WouldBlock else ReadFailed (OsError e))))"

datatype loop_end = BothDone | LoopFailed sandbox_error | TimerExpired | OutOfFuel

record buffers =
  out_buf :: "u8 list"
  err_buf :: "u8 list"
  out_done :: bool
  err_done :: bool

text \<open>The branches of the select: the read and what is done with it.\<close>

definition out_arm :: "read_step \<Rightarrow> buffers \<Rightarrow> sandbox_error + buffers" where
  "out_arm x b =
     (case x of
        Got bs \<Rightarrow> Inr (if bs = [] then b\<lparr>out_done := True\<rparr> else b\<lparr>out_buf := out_buf b @ bs\<rparr>)
      | WouldBlock \<Rightarrow> Inr b
      | ReadFailed e \<Rightarrow> Inl (IpcError e))"

definition err_arm :: "read_step \<Rightarrow> buffers \<Rightarrow> sandbox_error + buffers" where
  "err_arm x b =
     (case x of
        Got bs \<Rightarrow> Inr (if bs = [] then b\<lparr>err_done := True\<rparr> else b\<lparr>err_buf := err_buf b @ bs\<rparr>)
      | WouldBlock \<Rightarrow> Inr b
      | ReadFailed e \<Rightarrow> Inl (IpcError e))"

definition enabled_fds :: "fd \<Rightarrow> fd \<Rightarrow> buffers \<Rightarrow> fd list" where
  "enabled_fds m r b = (if out_done b then [] else [m]) @ (if err_done b then [] else [r])"

text \<open>The select is \<open>biased\<close>: of the enabled branches that are ready the first is taken, the master's.\<close>

definition first_ready :: "fd list \<Rightarrow> answer \<Rightarrow> fd option" where
  "first_ready fds a = find (\<lambda>f. f \<in> set (ans_fds a)) fds"

definition take_arm :: "'w kernel \<Rightarrow> fd \<Rightarrow> fd \<Rightarrow> buffers \<Rightarrow> fd \<Rightarrow> ('w, sandbox_error, sandbox_error + buffers) io" where
  "take_arm k m r b f =
     (if \<not> out_done b \<and> f = m then bnd (read_master k m) (\<lambda>x. ret (out_arm x b))
      else bnd (read_stderr k r) (\<lambda>x. ret (err_arm x b)))"

primrec collect_loop :: "'w kernel \<Rightarrow> fd \<Rightarrow> fd \<Rightarrow> nat \<Rightarrow> buffers \<Rightarrow> ('w, sandbox_error, buffers \<times> loop_end) io" where
  "collect_loop k m r 0 b = ret (b, OutOfFuel)"
| "collect_loop k m r (Suc n) b =
     (if out_done b \<and> err_done b then ret (b, BothDone)
      else
        bnd (call_try k (Fd (SelectReadable (enabled_fds m r b)))) (\<lambda>sel.
        case sel of
          Inl e \<Rightarrow> ret (b, LoopFailed (IpcError e))
        | Inr a \<Rightarrow>
            (case first_ready (enabled_fds m r b) a of
               None \<Rightarrow> ret (b, TimerExpired)
             | Some f \<Rightarrow>
                 bnd (take_arm k m r b f) (\<lambda>b'.
                 case b' of
                   Inl e \<Rightarrow> ret (b, LoopFailed e)
                 | Inr b' \<Rightarrow> collect_loop k m r n b'))))"

text \<open>The result of the loop is used only to tell whether the timer expired.\<close>

definition collect_output ::
  "'w kernel \<Rightarrow> fd \<Rightarrow> fd \<Rightarrow> duration \<Rightarrow> nat \<Rightarrow> ('w, sandbox_error, (u8 list \<times> u8 list \<times> bool) option) io" where
  "collect_output k master stderr_rd t n =
     bnd (or_close k [master, stderr_rd] (call_io k (Fd (AsyncFdNew master)) IpcError)) (\<lambda>_.
     bnd (or_close k [stderr_rd, master] (call_io k (Fd (AsyncFdNew stderr_rd)) IpcError)) (\<lambda>_.
     bnd (call_ignore k (Env (StartTimer (as_secs t) (subsec_nanos t)))) (\<lambda>_.
     bnd (collect_loop k master stderr_rd n \<lparr>out_buf = [], err_buf = [], out_done = False, err_done = False\<rparr>)
       (\<lambda>(b, e).
        if e = OutOfFuel then ret None
        else bnd (close_all k [stderr_rd, master]) (\<lambda>_. ret (Some (out_buf b, err_buf b, e = TimerExpired)))))))"

section \<open>What is read\<close>

text \<open>What was read from a descriptor.\<close>

fun read_from :: "fd \<Rightarrow> event \<Rightarrow> u8 list" where
  "read_from f (Fd (ReadFd g n), Inr a) = (if g = f \<and> n = 4096 then ans_data a else [])"
| "read_from f _ = []"

definition output_of :: "fd \<Rightarrow> event list \<Rightarrow> u8 list" where
  "output_of f es = concat (map (read_from f) es)"

definition ready :: "event \<Rightarrow> bool" where
  "ready ev \<longleftrightarrow> (\<exists>fds a. ev = (Fd (SelectReadable fds), Inr a) \<and> first_ready fds a \<noteq> None)"

definition expired :: "event \<Rightarrow> bool" where
  "expired ev \<longleftrightarrow> (\<exists>fds a. ev = (Fd (SelectReadable fds), Inr a) \<and> first_ready fds a = None)"

definition is_select :: "event \<Rightarrow> bool" where
  "is_select ev \<longleftrightarrow> (\<exists>fds. fst ev = Fd (SelectReadable fds))"

lemma output_of_simps [simp]:
  "output_of f [] = []" "output_of f (ev # es) = read_from f ev @ output_of f es"
  "output_of f (es @ es') = output_of f es @ output_of f es'"
  by (simp_all add: output_of_def)

lemma read_from_others [simp]: "read_from f (Fd (SelectReadable fds), r) = []"
  by (cases r) simp_all

lemma select_simps [simp]:
  "is_select (Fd (SelectReadable fds), r)" "\<not> is_select (Fd (ReadFd g n), r)"
  "ready (Fd (SelectReadable fds), Inr a) \<longleftrightarrow> first_ready fds a \<noteq> None"
  "expired (Fd (SelectReadable fds), Inr a) \<longleftrightarrow> first_ready fds a = None"
  by (auto simp: is_select_def ready_def expired_def)

lemma select_read_nothing: "is_select ev \<Longrightarrow> read_from f ev = []"
  by (cases "(f, ev)" rule: read_from.cases) (auto simp: is_select_def)

lemma ready_not_expired: "ready ev \<Longrightarrow> \<not> expired ev"
  by (auto simp: ready_def expired_def)

text \<open>
  The rule for the loop: \<open>Q n b\<close> holds of what \<open>n\<close> rounds from the buffers \<open>b\<close> end with and of their events,
  if it does for each way a round can go; \<open>A b\<close> is what is known of the arm that is taken.
\<close>

lemma emits_rounds:
  fixes Q :: "nat \<Rightarrow> buffers \<Rightarrow> buffers \<times> loop_end \<Rightarrow> event list \<Rightarrow> bool"
  assumes arm: "\<And>b i. emits (take_arm k m r b i) (\<lambda>_ _. False) (A b)"
    and fuel: "\<And>b. Q 0 b (b, OutOfFuel) []"
    and both: "\<And>n b. out_done b \<Longrightarrow> err_done b \<Longrightarrow> Q (Suc n) b (b, BothDone) []"
    and failed: "\<And>n b e. Q (Suc n) b (b, LoopFailed (IpcError e)) [(Fd (SelectReadable (enabled_fds m r b)), Inl e)]"
    and timer: "\<And>n b ev. expired ev \<Longrightarrow> is_select ev \<Longrightarrow> Q (Suc n) b (b, TimerExpired) [ev]"
    and arm_failed: "\<And>n b ev e es. ready ev \<Longrightarrow> is_select ev \<Longrightarrow> A b (Inl e) es \<Longrightarrow> Q (Suc n) b (b, LoopFailed e) (ev # es)"
    and arm_done: "\<And>n b ev b' es x es'. ready ev \<Longrightarrow> is_select ev \<Longrightarrow> A b (Inr b') es \<Longrightarrow> Q n b' x es' \<Longrightarrow>
      Q (Suc n) b x (ev # es @ es')"
  shows "emits (collect_loop k m r n b) (\<lambda>_ _. False) (Q n b)"
proof (induction n arbitrary: b)
  case 0
  show ?case by (simp only: collect_loop.simps, rule emits_ret) (rule fuel)
next
  case (Suc n)
  let ?ready = "first_ready (enabled_fds m r b)"
  let ?ev = "\<lambda>x. (Fd (SelectReadable (enabled_fds m r b)), x)"
  have ready: "emits (bnd (take_arm k m r b f) (\<lambda>b'.
      case b' of Inl e \<Rightarrow> ret (b, LoopFailed e) | Inr b' \<Rightarrow> collect_loop k m r n b'))
      (\<lambda>_ _. False) (\<lambda>x es. Q (Suc n) b x (?ev (Inr a) # es))" if "?ready a = Some f" for a f
  proof (rule emits_bnd, rule emits_weaken [OF arm], assumption)
    fix y es
    assume "A b y es"
    with that show "emits (case y of Inl e \<Rightarrow> ret (b, LoopFailed e) | Inr b' \<Rightarrow> collect_loop k m r n b')
        (\<lambda>_ _. False) (\<lambda>x es'. Q (Suc n) b x (?ev (Inr a) # es @ es'))"
      by (cases y) (auto intro!: emits_ret emits_weaken [OF Suc.IH] arm_failed arm_done)
  qed
  have select: "emits (case x of
        Inl e \<Rightarrow> ret (b, LoopFailed (IpcError e))
      | Inr a \<Rightarrow>
          (case ?ready a of
             None \<Rightarrow> ret (b, TimerExpired)
           | Some f \<Rightarrow> bnd (take_arm k m r b f) (\<lambda>b'.
               case b' of Inl e \<Rightarrow> ret (b, LoopFailed e) | Inr b' \<Rightarrow> collect_loop k m r n b')))
      (\<lambda>_ _. False) (\<lambda>y es. Q (Suc n) b y (?ev x # es))" for x :: reply
  proof (cases x)
    case (Inr a)
    show ?thesis unfolding Inr sum.case by (cases "?ready a") (auto intro!: emits_ret ready timer)
  qed (auto intro: emits_ret failed)
  show ?case
    unfolding collect_loop.simps
    by (intro emits_if emits_ret emits_bnd emits_call_try) (use both select in auto)
qed

text \<open>
  The loop from buffers \<open>b\<close> to \<open>b'\<close>: each stream grows by exactly what was read from it; the loop runs
  on only as long as every select answers a ready descriptor, and the timer expired only if the last
  select said so.
\<close>

definition collected :: "fd \<Rightarrow> fd \<Rightarrow> nat \<Rightarrow> buffers \<Rightarrow> buffers \<times> loop_end \<Rightarrow> event list \<Rightarrow> bool" where
  "collected m r n b x es \<longleftrightarrow>
     (case x of (b', e) \<Rightarrow>
        out_buf b' = out_buf b @ output_of m es \<and> err_buf b' = err_buf b @ output_of r es \<and>
        (case e of
           OutOfFuel \<Rightarrow> length (filter is_select es) = n \<and> list_all ready (filter is_select es)
         | TimerExpired \<Rightarrow> es \<noteq> [] \<and> expired (last es) \<and> list_all ready (filter is_select (butlast es))
         | BothDone \<Rightarrow> out_done b' \<and> err_done b' \<and> list_all ready (filter is_select es)
         | LoopFailed f \<Rightarrow> \<exists>i. f = IpcError i))"

lemma collected_step:
  assumes "collected m r n b' x es" and "out_buf b' = out_buf b @ read_from m ev" and "err_buf b' = err_buf b @ read_from r ev"
    and "is_select sel" and "ready sel" and "\<not> is_select ev" and "read_from m sel = []" and "read_from r sel = []"
  shows "collected m r (Suc n) b x (sel # ev # es)"
  using assms by (cases "snd x") (auto simp: collected_def split: loop_end.splits)

text \<open>The read of a round and what it does to the buffers.\<close>

definition arm_events :: "fd \<Rightarrow> fd \<Rightarrow> buffers \<Rightarrow> sandbox_error + buffers \<Rightarrow> event list \<Rightarrow> bool" where
  "arm_events m r b x es \<longleftrightarrow>
     (\<exists>ev. es = [ev] \<and> \<not> is_select ev \<and>
        (case x of
           Inr b' \<Rightarrow> out_buf b' = out_buf b @ read_from m ev \<and> err_buf b' = err_buf b @ read_from r ev
         | Inl e \<Rightarrow> (\<exists>i. e = IpcError i) \<and> read_from m ev = [] \<and> read_from r ev = []))"

lemma emits_arms:
  assumes "m \<noteq> r"
  shows "emits (bnd (read_master k m) (\<lambda>x. ret (out_arm x b))) (\<lambda>_ _. False) (arm_events m r b)"
    and "emits (bnd (read_stderr k r) (\<lambda>x. ret (err_arm x b))) (\<lambda>_ _. False) (arm_events m r b)"
proof -
  show "emits (bnd (read_master k m) (\<lambda>x. ret (out_arm x b))) (\<lambda>_ _. False) (arm_events m r b)"
    unfolding read_master_def
  proof (rule emits_bnd, rule emits_bnd, rule emits_call_try)
    fix x :: reply
    show "emits (case x of Inl _ \<Rightarrow> bnd get_errno (\<lambda>e. ret (if e = EIO then Got [] else if e = EAGAIN then WouldBlock else ReadFailed (OsError e)))
        | Inr a \<Rightarrow> ret (Got (ans_data a))) (\<lambda>_ _. False)
      (\<lambda>y es'. emits (ret (out_arm y b)) (\<lambda>_ _. False) (\<lambda>z es''. arm_events m r b z (([(Fd (ReadFd m 4096), x)] @ es') @ es'')))"
      using assms by (cases x) (auto intro!: emits_rules simp: arm_events_def out_arm_def)
  qed
  show "emits (bnd (read_stderr k r) (\<lambda>x. ret (err_arm x b))) (\<lambda>_ _. False) (arm_events m r b)"
    unfolding read_stderr_def
  proof (rule emits_bnd, rule emits_bnd, rule emits_call_try)
    fix x :: reply
    show "emits (case x of Inl _ \<Rightarrow> bnd get_errno (\<lambda>e. ret (if e = EAGAIN then WouldBlock else ReadFailed (OsError e)))
        | Inr a \<Rightarrow> ret (Got (ans_data a))) (\<lambda>_ _. False)
      (\<lambda>y es'. emits (ret (err_arm y b)) (\<lambda>_ _. False) (\<lambda>z es''. arm_events m r b z (([(Fd (ReadFd r 4096), x)] @ es') @ es'')))"
      using assms by (cases x) (auto intro!: emits_rules simp: arm_events_def err_arm_def)
  qed
qed

lemma emits_take_arm: "m \<noteq> r \<Longrightarrow> emits (take_arm k m r b i) (\<lambda>_ _. False) (arm_events m r b)"
  unfolding take_arm_def by (intro emits_if emits_arms)

lemma emits_collect_loop:
  assumes "m \<noteq> r"
  shows "emits (collect_loop k m r n b) (\<lambda>_ _. False) (collected m r n b)"
proof (rule emits_rounds [where A = "arm_events m r", OF emits_take_arm [OF assms]])
  fix n b and ev :: event and b' :: buffers and es x es'
  assume "ready ev" "is_select ev" "arm_events m r b (Inr b') es" "collected m r n b' x es'"
  then show "collected m r (Suc n) b x (ev # es @ es')"
    by (auto simp: arm_events_def select_read_nothing elim!: collected_step)
qed (auto simp: collected_def arm_events_def select_read_nothing)

section \<open>The timer\<close>

lemma stays_or_close [stays_rules]: "(\<And>f. N (Fd (CloseFd f))) \<Longrightarrow> stays N m \<Longrightarrow> stays N (or_close k fds m)"
  unfolding or_close_def by (auto intro!: stays_rules split: sum.splits)

text \<open>
  The calls of a run outside the loop: once it has its cgroup it makes no directory, it selects only in
  the loop, and it prints nothing.
\<close>

fun plain :: "call \<Rightarrow> bool" where
  "plain (Fs (CreateDir _ _)) \<longleftrightarrow> False"
| "plain (Fd (SelectReadable _)) \<longleftrightarrow> False"
| "plain (Env (PrintOut _)) \<longleftrightarrow> False"
| "plain (Env (PrintErr _)) \<longleftrightarrow> False"
| "plain _ \<longleftrightarrow> True"

lemma plain_no_select: "only plain es \<Longrightarrow> ev \<in> set es \<Longrightarrow> fst ev \<noteq> Fd (SelectReadable fds)"
  by (fastforce simp: only_def)

lemma stays_collect_loop:
  assumes "\<And>fds. N (Fd (SelectReadable fds))" and "\<And>f n. N (Fd (ReadFd f n))"
  shows "stays N (collect_loop k m r n b)"
proof (induction n arbitrary: b)
  case 0
  show ?case by (simp only: collect_loop.simps stays_simple)
next
  case (Suc n)
  then show ?case
    unfolding collect_loop.simps take_arm_def read_master_def read_stderr_def
    by (auto intro!: stays_rules assms split: sum.splits option.splits)
qed

text \<open>The loop's end and its selects, whatever the descriptors.\<close>

lemma plain_unexpired: "only plain es \<Longrightarrow> ev \<in> set es \<Longrightarrow> \<not> expired ev"
  by (fastforce simp: expired_def dest: plain_no_select)

lemma emits_take_arm_plain: "emits (take_arm k m r b i) (\<lambda>_ _. False) (\<lambda>_. only plain)"
  unfolding take_arm_def read_master_def read_stderr_def by (auto intro!: emits_rules split: sum.splits)

definition timed :: "nat \<Rightarrow> loop_end \<Rightarrow> event list \<Rightarrow> bool" where
  "timed n e es \<longleftrightarrow> (e = TimerExpired \<longleftrightarrow> (\<exists>ev \<in> set es. expired ev)) \<and>
     (e = OutOfFuel \<longrightarrow> n \<le> length (filter ready es))"

lemma timed_later: "only plain es \<Longrightarrow> \<not> expired ev \<Longrightarrow> ready ev \<Longrightarrow> timed n e es' \<Longrightarrow> timed (Suc n) e (ev # es @ es')"
  by (auto simp: timed_def dest: plain_unexpired)

lemma timed_failed [simp]: "timed n (LoopFailed f) []"
  by (simp add: timed_def)

lemma emits_collect_timed: "emits (collect_loop k m r n b) (\<lambda>_ _. False) (\<lambda>x. timed n (snd x))"
proof (rule emits_rounds [where A = "\<lambda>_ _. only plain" and Q = "\<lambda>n _ x. timed n (snd x)", OF emits_take_arm_plain])
  fix n and b b' :: buffers and ev :: event and es es' and x :: "buffers \<times> loop_end"
  assume ev: "ready ev" and es: "only plain es"
  show "timed (Suc n) (snd (b, LoopFailed e)) (ev # es)" for e
    using ready_not_expired [OF ev] plain_unexpired [OF es] by (simp add: timed_def)
  show "timed (Suc n) (snd x) (ev # es @ es')" if "timed n (snd x) es'"
    by (rule timed_later [OF es ready_not_expired [OF ev] ev that])
qed (simp_all add: timed_def expired_def)

lemma emits_plain_bnd:
  assumes "stays plain m" and "\<And>e es. only plain es \<Longrightarrow> E e es"
    and "\<And>x es. only plain es \<Longrightarrow> emits (f x) (\<lambda>e es'. E e (es @ es')) (\<lambda>y es'. Q y (es @ es'))"
  shows "emits (bnd m f) E Q"
  by (rule emits_bnd, rule emits_weaken [OF assms(1) [unfolded stays_def]]) (use assms(2,3) in auto)

definition unexpired :: "event list \<Rightarrow> bool" where
  "unexpired es \<longleftrightarrow> (\<forall>ev \<in> set es. \<not> expired ev)"

lemma unexpired_simps [simp]:
  "unexpired []" "unexpired (ev # es) \<longleftrightarrow> \<not> expired ev \<and> unexpired es"
  "unexpired (es @ es') \<longleftrightarrow> unexpired es \<and> unexpired es'"
  by (auto simp: unexpired_def)

lemma only_plain_unexpired [simp]: "only plain es \<Longrightarrow> unexpired es"
  by (auto simp: unexpired_def dest: plain_unexpired)

lemma timed_unexpired: "timed n e es \<Longrightarrow> unexpired es \<longleftrightarrow> e \<noteq> TimerExpired"
  by (auto simp: timed_def unexpired_def)

lemma closes_unexpired: "calls_of es = map (\<lambda>f. Fd (CloseFd f)) fds \<Longrightarrow> unexpired es"
  by (induction fds arbitrary: es) (auto simp: map_eq_Cons_conv expired_def)

lemma stays_wrap: "stays plain (close_all k fds)" "stays plain (or_close k fds (call_io k (Fd (AsyncFdNew f)) g))"
  by (auto intro!: stays_rules stays_close_all)

lemma emits_collect_output:
  "emits (collect_output k m r t n) (\<lambda>_. unexpired)
     (\<lambda>x es. case x of None \<Rightarrow> n \<le> length (filter ready es) | Some (out, err, to) \<Rightarrow> to \<longleftrightarrow> \<not> unexpired es)"
proof -
  have last: "emits (bnd (collect_loop k m r n b) (\<lambda>(b, e).
        if e = OutOfFuel then ret None
        else bnd (close_all k [r, m]) (\<lambda>_. ret (Some (out_buf b, err_buf b, e = TimerExpired)))))
      (\<lambda>_ _. False)
      (\<lambda>x es'. case x of None \<Rightarrow> n \<le> length (filter ready (es @ es')) | Some (out, err, to) \<Rightarrow> to \<longleftrightarrow> \<not> unexpired (es @ es'))"
    if "only plain es" for es b
  proof (rule emits_bnd, rule emits_weaken [OF emits_collect_timed], assumption)
    fix x :: "buffers \<times> loop_end" and es'
    assume x: "timed n (snd x) es'"
    obtain b' e where [simp]: "x = (b', e)" by (cases x)
    have "emits (if e = OutOfFuel then ret None
        else bnd (close_all k [r, m]) (\<lambda>_. ret (Some (out_buf b', err_buf b', e = TimerExpired)))) (\<lambda>_ _. False)
      (\<lambda>x es''. case x of None \<Rightarrow> n \<le> length (filter ready (es @ es' @ es''))
         | Some (out, err, to) \<Rightarrow> to \<longleftrightarrow> \<not> unexpired (es @ es' @ es''))"
    proof (intro emits_if emits_ret)
      show "emits (bnd (close_all k [r, m]) (\<lambda>_. ret (Some (out_buf b', err_buf b', e = TimerExpired)))) (\<lambda>_ _. False)
        (\<lambda>x es''. case x of None \<Rightarrow> n \<le> length (filter ready (es @ es' @ es''))
           | Some (out, err, to) \<Rightarrow> to \<longleftrightarrow> \<not> unexpired (es @ es' @ es''))"
        by (rule emits_bnd, rule emits_weaken [OF emits_close_all [where E = "\<lambda>_ _. False"]], assumption, rule emits_ret)
          (use x that closes_unexpired [where fds = "[r, m]"] in \<open>simp add: timed_unexpired\<close>)
    qed (use x in \<open>simp add: timed_def\<close>)
    then show "emits (case x of (b, e) \<Rightarrow> if e = OutOfFuel then ret None
        else bnd (close_all k [r, m]) (\<lambda>_. ret (Some (out_buf b, err_buf b, e = TimerExpired)))) (\<lambda>_ _. False)
      (\<lambda>x es''. case x of None \<Rightarrow> n \<le> length (filter ready (es @ es' @ es''))
         | Some (out, err, to) \<Rightarrow> to \<longleftrightarrow> \<not> unexpired (es @ es' @ es''))" by simp
  qed
  show ?thesis
    unfolding collect_output_def
    by (rule emits_plain_bnd, rule stays_wrap, simp, rule emits_plain_bnd, rule stays_wrap, simp,
        rule emits_plain_bnd, rule stays_simple, simp, simp, simp only: append_assoc [symmetric],
        rule emits_weaken, rule last) simp_all
qed

section \<open>Fuel\<close>

text \<open>\<open>extends m m'\<close>: where \<open>m\<close> comes to an end, \<open>m'\<close> does the same.\<close>

definition extends :: "('w, 'e, 'a option) io \<Rightarrow> ('w, 'e, 'a option) io \<Rightarrow> bool" where
  "extends m m' \<longleftrightarrow> (\<forall>s. fst (m s) \<noteq> Inr None \<longrightarrow> m' s = m s)"

lemma extends_bnd: "(\<And>x. extends (f x) (f' x)) \<Longrightarrow> extends (bnd m f) (bnd m f')"
  by (auto simp: extends_def bnd_def split: prod.splits sum.splits)

lemma extends_bnd_first:
  assumes "extends m m'" and "\<And>s. fst (f None s) = Inr None"
  shows "extends (bnd m f) (bnd m' f)"
  unfolding extends_def
proof (intro allI impI)
  fix s
  assume r: "fst (bnd m f s) \<noteq> Inr None"
  have "fst (m s) \<noteq> Inr None"
  proof
    assume "fst (m s) = Inr None"
    then have "bnd m f s = f None (snd (m s))" by (cases "m s") (simp add: bnd_def)
    with r assms(2) show False by simp
  qed
  with assms(1) show "bnd m' f s = bnd m f s" by (simp add: extends_def bnd_def)
qed

lemma collect_loop_more:
  "collect_loop k m r n b s = (Inr (b', e), t) \<Longrightarrow> e \<noteq> OutOfFuel \<Longrightarrow> collect_loop k m r (n + d) b s = (Inr (b', e), t)"
proof (induction n arbitrary: b s)
  case (Suc n)
  from Suc.prems show ?case
    by (auto simp: bnd_def Let_def intro: Suc.IH split: if_splits sum.splits prod.splits option.splits)
qed simp

lemma extends_collect: "extends (collect_output k m r t n) (collect_output k m r t (n + d))"
proof -
  have "extends (bnd (collect_loop k m r n b) (\<lambda>(b, e). if e = OutOfFuel then ret None
        else bnd (close_all k [r, m]) (\<lambda>_. ret (Some (out_buf b, err_buf b, e = TimerExpired)))))
      (bnd (collect_loop k m r (n + d) b) (\<lambda>(b, e). if e = OutOfFuel then ret None
        else bnd (close_all k [r, m]) (\<lambda>_. ret (Some (out_buf b, err_buf b, e = TimerExpired)))))" for b
    unfolding extends_def
  proof (intro allI impI)
    fix s
    let ?f = "\<lambda>(b, e). if e = OutOfFuel then ret None
        else bnd (close_all k [r, m]) (\<lambda>_. ret (Some (out_buf b, err_buf b, e = TimerExpired)))"
    assume f: "fst (bnd (collect_loop k m r n b) ?f s) \<noteq> Inr None"
    obtain x u where x: "collect_loop k m r n b s = (x, u)" by (cases "collect_loop k m r n b s")
    have "x \<noteq> Inl e" for e
      using emits_Inl [OF emits_collect_timed, of k m r n b s e u] x by auto
    then obtain b' e where "x = Inr (b', e)" by (cases x) auto
    with f x have "e \<noteq> OutOfFuel" by (auto simp: bnd_def)
    from collect_loop_more [OF x [unfolded \<open>x = Inr (b', e)\<close>] this, of d] x \<open>x = Inr (b', e)\<close>
    show "bnd (collect_loop k m r (n + d) b) ?f s = bnd (collect_loop k m r n b) ?f s"
      by (simp add: bnd_def)
  qed
  then show ?thesis unfolding collect_output_def by (intro extends_bnd)
qed

section \<open>The buffers\<close>

lemma output_of_quiet: "only (\<lambda>c. \<nexists>f n. c = Fd (ReadFd f n)) es \<Longrightarrow> output_of f es = []"
proof (induction es)
  case (Cons ev es)
  then show ?case by (cases "(f, ev)" rule: read_from.cases) auto
qed simp

lemma emits_collect_buffers:
  assumes "m \<noteq> r"
  shows "emits (collect_output k m r t n) (\<lambda>_ _. True)
    (\<lambda>x es. \<forall>out err to. x = Some (out, err, to) \<longrightarrow> out = output_of m es \<and> err = output_of r es)"
proof -
  let ?N = "\<lambda>c. \<nexists>f n. c = Fd (ReadFd f n)"
  let ?b = "\<lparr>out_buf = [], err_buf = [], out_done = False, err_done = False\<rparr>"
  have close: "emits (close_all k [r, m]) (\<lambda>_ _. True) (\<lambda>_ es. \<forall>f. output_of f es = [])"
    by (rule emits_weaken [OF stays_close_all [unfolded stays_def, where N = ?N]]) (auto intro: output_of_quiet)
  have last: "emits (bnd (collect_loop k m r n ?b) (\<lambda>(b, e).
        if e = OutOfFuel then ret None
        else bnd (close_all k [r, m]) (\<lambda>_. ret (Some (out_buf b, err_buf b, e = TimerExpired)))))
      (\<lambda>_ _. True) (\<lambda>x es'. \<forall>out err to. x = Some (out, err, to) \<longrightarrow> out = output_of m es' \<and> err = output_of r es')"
  proof (rule emits_bnd, rule emits_weaken [OF emits_collect_loop [OF assms]], simp)
    fix x es
    assume x: "collected m r n ?b x es"
    obtain b e where [simp]: "x = (b, e)" by (cases x)
    have "emits (if e = OutOfFuel then ret None
        else bnd (close_all k [r, m]) (\<lambda>_. ret (Some (out_buf b, err_buf b, e = TimerExpired)))) (\<lambda>_ _. True)
      (\<lambda>y es'. \<forall>out err to. y = Some (out, err, to) \<longrightarrow> out = output_of m (es @ es') \<and> err = output_of r (es @ es'))"
      using x by (intro emits_if emits_ret, simp, intro emits_bnd emits_weaken [OF close] emits_ret)
        (auto simp: collected_def)
    then show "emits (case x of (b, e) \<Rightarrow> if e = OutOfFuel then ret None
        else bnd (close_all k [r, m]) (\<lambda>_. ret (Some (out_buf b, err_buf b, e = TimerExpired)))) (\<lambda>_ _. True)
      (\<lambda>y es'. \<forall>out err to. y = Some (out, err, to) \<longrightarrow> out = output_of m (es @ es') \<and> err = output_of r (es @ es'))"
      by simp
  qed
  have pre: "emits (bnd p f) (\<lambda>_ _. True) (\<lambda>x es. \<forall>out err to. x = Some (out, err, to) \<longrightarrow> out = output_of m es \<and> err = output_of r es)"
    if "stays ?N p" and "emits f' (\<lambda>_ _. True) (\<lambda>x es. \<forall>out err to. x = Some (out, err, to) \<longrightarrow> out = output_of m es \<and> err = output_of r es)"
      and "f = (\<lambda>_. f')"
    for p :: "('w, sandbox_error, 'b) io" and f f'
    using that by (auto intro!: emits_bnd emits_weaken [OF that(1) [unfolded stays_def]] emits_weaken [OF that(2)]
        simp: output_of_quiet)
  show ?thesis
    unfolding collect_output_def
    by (rule pre [OF _ pre [OF _ pre [OF _ last refl] refl] refl]) (auto intro!: stays_rules)
qed

section \<open>Properties\<close>

text \<open>A kernel that counts its calls, with two reads that find something.\<close>

fun stream_reply :: "call \<Rightarrow> nat \<Rightarrow> reply" where
  "stream_reply (Fd (ReadFd f _)) w =
     Inr (done_ans\<lparr>ans_data := if w = 4 then [104, 105] else if w = 8 then [33] else []\<rparr>)"
| "stream_reply (Fd (SelectReadable fds)) w = Inr (done_ans\<lparr>ans_fds := fds\<rparr>)"
| "stream_reply _ w = Inr done_ans"

lemmas collect_code = collect_output_def take_arm_def read_master_def read_stderr_def out_arm_def err_arm_def
  enabled_fds_def first_ready_def or_close_def close_all_def

text \<open>
  C11. The output is complete and in order: what a finished collection returns for a stream is the
  concatenation of everything read from its descriptor, and it says whether the timer expired.
\<close>

theorem output_collected:
  assumes "collect_output k master stderr_rd d n s = (Inr (Some (out, err, timed_out)), t)" and "master \<noteq> stderr_rd"
  shows "\<exists>es. trace t = trace s @ es \<and> out = output_of master es \<and> err = output_of stderr_rd es \<and>
    (timed_out \<longleftrightarrow> (\<exists>ev \<in> set es. expired ev))"
  using emits_Inr [OF emits_conj [OF emits_collect_output emits_collect_buffers [OF assms(2)]] assms(1)]
  by (auto simp: unexpired_def)

theorem output_collected_witness:
  "\<exists>t es. collect_output (\<lambda>c w. (stream_reply c w, Suc w)) 10 22 \<lparr>as_secs = 1, subsec_nanos = 0\<rparr> (Suc (Suc (Suc (Suc (Suc 0)))))
       \<lparr>world = 0, last_errno = 0, trace = []\<rparr> = (Inr (Some ([104, 105], [33], False)), t) \<and>
     trace t = es \<and> output_of 10 es = [104, 105] \<and> output_of 22 es = [33]"
proof -
  let ?run = "collect_output (\<lambda>c w. (stream_reply c w, Suc w)) 10 22 \<lparr>as_secs = 1, subsec_nanos = 0\<rparr> (Suc (Suc (Suc (Suc (Suc 0)))))
       \<lparr>world = 0, last_errno = 0, trace = []\<rparr>"
  have r: "?run = (Inr (Some ([104, 105], [33], False)), snd ?run)"
    by (simp add: collect_code run_defs)
  from output_collected [OF r] obtain es where "trace (snd ?run) = es" "output_of 10 es = [104, 105]" "output_of 22 es = [33]"
    by auto
  with r show ?thesis by blast
qed

end
