(* ===== verification/Cgroup.thy ===== *)
theory Cgroup
  imports Config
begin

text \<open>
  \<^verbatim>\<open>src/cgroup.rs\<close>: the life of the ephemeral cgroup directory (\<open>CgroupGuard\<close>, a path):
  the delegation check, creation with the limits, the kill switch, the readers of the kernel's
  statistics and the \<open>Drop\<close> that waits for the group to empty and removes it. A value whose
  \<open>Drop\<close> runs when a statement fails is \<open>on_error\<close>. Opening an existing file for writing and
  writing all of a value is the one call \<open>WriteExisting\<close>.
\<close>

section \<open>Definitions\<close>

type_synonym cgroup_guard = path

definition kind_of :: "io_error \<Rightarrow> error_kind" where
  "kind_of e =
     (case e of
        OsError n \<Rightarrow> if n = EPERM \<or> n = EACCES then PermissionDenied else OtherKind
      | StdError k \<Rightarrow> k)"

text \<open>The number a call answers that cannot fail, such as reading a clock.\<close>

definition call_num :: "'w kernel \<Rightarrow> call \<Rightarrow> ('w, 'e, int) io" where
  "call_num k c = bnd (call_try k c) (\<lambda>r. ret (case r of Inl _ \<Rightarrow> 0 | Inr a \<Rightarrow> ans_num a))"

definition on_error ::
  "('w, 'e, 'a) io \<Rightarrow> ('w, 'e, unit) io \<Rightarrow> ('w, 'e, 'a) io" where
  "on_error m d s = (case m s of (Inl e, t) \<Rightarrow> (Inl e, snd (d t)) | (Inr x, t) \<Rightarrow> (Inr x, t))"

subsection \<open>Low-level helpers\<close>

definition write_cgroup_file :: "'w kernel \<Rightarrow> path \<Rightarrow> string \<Rightarrow> (io_error \<Rightarrow> 'e) \<Rightarrow> ('w, 'e, unit) io" where
  "write_cgroup_file k p value g = unit_of (call_io k (Fs (WriteExisting p value)) g)"

definition read_text :: "'w kernel \<Rightarrow> path \<Rightarrow> ('w, 'e, string) io" where
  "read_text k p =
     bnd (call_try k (Fs (ReadToString p)))
       (\<lambda>r. ret (case r of Inl _ \<Rightarrow> [] | Inr a \<Rightarrow> string_at (ans_data a)))"

definition u64_of_text :: "string \<Rightarrow> u64" where
  "u64_of_text s = (case parse_u64 (trim s) of None \<Rightarrow> 0 | Some n \<Rightarrow> n)"

definition read_u64_file :: "'w kernel \<Rightarrow> path \<Rightarrow> ('w, 'e, u64) io" where
  "read_u64_file k p = bnd (read_text k p) (\<lambda>s. ret (u64_of_text s))"

definition parse_named_u64 :: "string \<Rightarrow> string \<Rightarrow> u64" where
  "parse_named_u64 content key =
     (case find_map (\<lambda>line.
        case split_ascii_whitespace line of
          [] \<Rightarrow> None
        | w # ws \<Rightarrow> if w = key then (case ws of [] \<Rightarrow> None | v # _ \<Rightarrow> parse_u64 v) else None)
        (str_lines content) of
      None \<Rightarrow> 0 | Some n \<Rightarrow> n)"

definition parse_cpu_stat :: "string \<Rightarrow> u64" where
  "parse_cpu_stat content = parse_named_u64 content ''usage_usec''"

definition unique_id :: "'w kernel \<Rightarrow> ('w, 'e, u64) io" where
  "unique_id k =
     bnd (call_num k (Env SystemTimeNow)) (\<lambda>t.
     bnd (call_num k (Env ProcessId)) (\<lambda>p.
     let ts = (if t < 0 then 0 else word_of_int t :: u64); pid = (ucast (word_of_int p :: u32) :: u64)
     in ret (ts XOR push_bit 48 pid)))"

subsection \<open>The guard\<close>

definition check_delegation :: "'w kernel \<Rightarrow> path \<Rightarrow> ('w, sandbox_error, unit) io" where
  "check_delegation k parent =
     (let probe = path_join parent ''cgroup.subtree_control'' in
      bnd (call_try k (Fs (Exists probe))) (\<lambda>r.
      case r of
        Inl _ \<Rightarrow> throw CgroupDelegationMissing
      | Inr _ \<Rightarrow>
          bnd (call_try k (Fs (OpenForWrite probe))) (\<lambda>r.
          case r of
            Inr _ \<Rightarrow> ret ()
          | Inl e \<Rightarrow>
              if kind_of e = PermissionDenied then throw CgroupDelegationMissing
              else throw (CgroupCreateFailed e))))"

definition guard_write :: "'w kernel \<Rightarrow> cgroup_guard \<Rightarrow> string \<Rightarrow> string \<Rightarrow> ('w, sandbox_error, unit) io" where
  "guard_write k g filename value =
     write_cgroup_file k (path_join g filename) value (CgroupWriteFailed filename)"

definition kill_all :: "'w kernel \<Rightarrow> cgroup_guard \<Rightarrow> ('w, sandbox_error, unit) io" where
  "kill_all k g = guard_write k g ''cgroup.kill'' ''1''"

definition peak_memory_bytes :: "'w kernel \<Rightarrow> cgroup_guard \<Rightarrow> ('w, 'e, u64) io" where
  "peak_memory_bytes k g = read_u64_file k (path_join g ''memory.peak'')"

definition cpu_time_us :: "'w kernel \<Rightarrow> cgroup_guard \<Rightarrow> ('w, 'e, u64) io" where
  "cpu_time_us k g =
     bnd (read_text k (path_join g ''cpu.stat'')) (\<lambda>content. ret (parse_cpu_stat content))"

definition oom_kill_count :: "'w kernel \<Rightarrow> cgroup_guard \<Rightarrow> ('w, 'e, u64) io" where
  "oom_kill_count k g =
     bnd (read_text k (path_join g ''memory.events''))
       (\<lambda>content. ret (parse_named_u64 content ''oom_kill''))"

definition current_pids :: "'w kernel \<Rightarrow> cgroup_guard \<Rightarrow> ('w, 'e, u64) io" where
  "current_pids k g = read_u64_file k (path_join g ''pids.current'')"

text \<open>The loop of \<open>Drop\<close>, \<open>n\<close> rounds left.\<close>

primrec wait_empty :: "'w kernel \<Rightarrow> cgroup_guard \<Rightarrow> nat \<Rightarrow> ('w, 'e, unit) io" where
  "wait_empty k g 0 = ret ()"
| "wait_empty k g (Suc n) =
     bnd (current_pids k g) (\<lambda>pids.
       if pids = 0 then ret ()
       else bnd (call_ignore k (Env (SleepMs 10))) (\<lambda>_. wait_empty k g n))"

definition drop_guard :: "'w kernel \<Rightarrow> cgroup_guard \<Rightarrow> ('w, 'e, unit) io" where
  "drop_guard k g = bnd (wait_empty k g 500) (\<lambda>_. call_ignore k (Fs (RemoveDir g)))"

definition cgroup_create :: "'w kernel \<Rightarrow> sandbox_config \<Rightarrow> ('w, sandbox_error, cgroup_guard) io" where
  "cgroup_create k c =
     bnd (check_delegation k (cgroup_parent c)) (\<lambda>_.
     bnd (write_cgroup_file k (path_join (cgroup_parent c) ''cgroup.subtree_control'')
            ''+memory +cpu +pids'' (CgroupWriteFailed ''cgroup.subtree_control'')) (\<lambda>_.
     bnd (unique_id k) (\<lambda>id.
     let path = path_join (cgroup_parent c) (''sandbox-'' @ dec (unat id)) in
     bnd (call_io k (Fs (CreateDir path 0x1FF)) CgroupCreateFailed) (\<lambda>_.
     on_error
       (bnd (guard_write k path ''memory.max'' (dec (unat (memory_max_bytes c)))) (\<lambda>_.
        bnd (guard_write k path ''memory.swap.max'' ''0'') (\<lambda>_.
        bnd (guard_write k path ''cpu.max''
               (dec (unat (cpu_quota_us c)) @ '' '' @ dec (unat (cpu_period_us c)))) (\<lambda>_.
        bnd (guard_write k path ''pids.max'' (dec (unat (pids_max c)))) (\<lambda>_.
        ret path)))))
       (drop_guard k path)))))"

subsection \<open>Specifications\<close>

text \<open>A file of the kernel's flat-keyed format, as \<open>memory.events\<close> and \<open>cpu.stat\<close> are.\<close>

definition stat_line :: "string \<times> nat \<Rightarrow> string" where
  "stat_line kv = fst kv @ CHR '' '' # dec (snd kv)"

definition render_stat :: "(string \<times> nat) list \<Rightarrow> string" where
  "render_stat kvs = concat (map (\<lambda>kv. stat_line kv @ [newline]) kvs)"

definition stat_key :: "string \<Rightarrow> bool" where
  "stat_key w \<longleftrightarrow> w \<noteq> [] \<and> list_all (\<lambda>c. \<not> is_ascii_whitespace c) w"

text \<open>The writes of \<open>create\<close>, for a directory \<open>p\<close>.\<close>

definition limit_calls :: "sandbox_config \<Rightarrow> path \<Rightarrow> call list" where
  "limit_calls c p =
     [Fs (WriteExisting (path_join p ''memory.max'') (dec (unat (memory_max_bytes c)))),
      Fs (WriteExisting (path_join p ''memory.swap.max'') ''0''),
      Fs (WriteExisting (path_join p ''cpu.max'')
        (dec (unat (cpu_quota_us c)) @ '' '' @ dec (unat (cpu_period_us c)))),
      Fs (WriteExisting (path_join p ''pids.max'') (dec (unat (pids_max c))))]"

definition create_calls :: "sandbox_config \<Rightarrow> path \<Rightarrow> call list" where
  "create_calls c p =
     (let probe = path_join (cgroup_parent c) ''cgroup.subtree_control'' in
      [Fs (Exists probe), Fs (OpenForWrite probe), Fs (WriteExisting probe ''+memory +cpu +pids''),
       Env SystemTimeNow, Env ProcessId, Fs (CreateDir p 0x1FF)] @ limit_calls c p)"

text \<open>The calls of \<open>Drop\<close> that looks \<open>n\<close> times and finds processes each time but perhaps the last.\<close>

definition drop_calls :: "cgroup_guard \<Rightarrow> nat \<Rightarrow> bool \<Rightarrow> call list" where
  "drop_calls g n emptied =
     concat (replicate n [Fs (ReadToString (path_join g ''pids.current'')), Env (SleepMs 10)]) @
     (if emptied then [Fs (ReadToString (path_join g ''pids.current''))] else []) @
     [Fs (RemoveDir g)]"

section \<open>Statistics\<close>

lemma stat_line_split:
  assumes "stat_key w"
  shows "split_ascii_whitespace (stat_line (w, v)) = [w, dec v]"
proof -
  have "list_all (\<lambda>c. \<not> is_ascii_whitespace c) (dec v)"
    using dec_all_digits [of _ v] digit_no_space ascii_whitespace_space
    by (auto simp: list_all_iff)
  then show ?thesis
    using assms by (simp add: stat_line_def stat_key_def split_ascii_whitespace_pair)
qed

lemma stat_line_plain:
  assumes "stat_key w"
  shows "newline \<notin> set (stat_line (w, v))" and "strip_cr (stat_line (w, v)) = stat_line (w, v)"
proof -
  have "is_ascii_whitespace newline" by (simp add: is_ascii_whitespace_def newline_def)
  moreover have "newline \<noteq> CHR '' ''"
  proof
    assume eq: "newline = CHR '' ''"
    have "(of_char newline :: nat) = of_char CHR '' ''" by (simp only: eq)
    then show False by (simp add: newline_def)
  qed
  ultimately show "newline \<notin> set (stat_line (w, v))"
    using assms dec_all_digits [of newline v]
    by (auto simp: stat_line_def stat_key_def list_all_iff not_digit_chars)
  have "last (stat_line (w, v)) = last (dec v)" by (simp add: stat_line_def)
  moreover have "is_digit (last (dec v))" using dec_all_digits [OF last_in_set] by simp
  moreover have "\<not> is_digit (char_of (13 :: nat))" by (simp add: is_digit_def)
  ultimately show "strip_cr (stat_line (w, v)) = stat_line (w, v)"
    by (auto simp: strip_cr_def)
qed

lemma str_lines_render:
  "\<forall>kv \<in> set kvs. stat_key (fst kv) \<Longrightarrow> str_lines (render_stat kvs) = map stat_line kvs"
proof (induction kvs)
  case Nil
  then show ?case by (simp add: render_stat_def)
next
  case (Cons kv kvs)
  then have "stat_key (fst kv)" by simp
  then have "str_lines (stat_line kv @ newline # render_stat kvs) =
      stat_line kv # str_lines (render_stat kvs)"
    using stat_line_plain [of "fst kv" "snd kv"] by (simp add: str_lines_line)
  with Cons show ?case by (simp add: render_stat_def)
qed

section \<open>Traces\<close>

lemma emits_on_error [emits_rules]:
  assumes "emits m (\<lambda>e es. emits d (\<lambda>_ es'. E e (es @ es')) (\<lambda>_ es'. E e (es @ es'))) Q"
  shows "emits (on_error m d) E Q"
proof (rule emitsI)
  fix s
  obtain r t where m: "m s = (r, t)" by (cases "m s")
  from assms m obtain es where es: "trace t = trace s @ es" and
    c: "case r of Inl e \<Rightarrow> emits d (\<lambda>_ es'. E e (es @ es')) (\<lambda>_ es'. E e (es @ es')) | Inr x \<Rightarrow> Q x es"
    by (rule emitsE)
  show "\<exists>es. trace (snd (on_error m d s)) = trace s @ es \<and>
      (case fst (on_error m d s) of Inl e \<Rightarrow> E e es | Inr x \<Rightarrow> Q x es)"
  proof (cases r)
    case (Inr x)
    with m es c show ?thesis by (simp add: on_error_def)
  next
    case (Inl e)
    obtain r' u where d: "d t = (r', u)" by (cases "d t")
    from c Inl have "emits d (\<lambda>_ es'. E e (es @ es')) (\<lambda>_ es'. E e (es @ es'))" by simp
    from this d obtain es' where "trace u = trace t @ es'" "E e (es @ es')"
      by (rule emitsE) (cases r'; simp)
    with m es d Inl show ?thesis
      by (intro exI [of _ "es @ es'"]) (simp add: on_error_def)
  qed
qed

lemma emits_call_num [emits_rules]:
  "(\<And>n r. Q n [(c, r)]) \<Longrightarrow> emits (call_num k c) E Q"
  unfolding call_num_def by (intro emits_rules) simp

lemma emits_write_cgroup_file [emits_rules]:
  "(\<And>e. E (g e) [(Fs (WriteExisting p v), Inl e)]) \<Longrightarrow>
   (\<And>a. Q () [(Fs (WriteExisting p v), Inr a)]) \<Longrightarrow> emits (write_cgroup_file k p v g) E Q"
  unfolding write_cgroup_file_def by (intro emits_rules) simp_all

lemma emits_guard_write [emits_rules]:
  "(\<And>e. E (CgroupWriteFailed f e) [(Fs (WriteExisting (path_join g f) v), Inl e)]) \<Longrightarrow>
   (\<And>a. Q () [(Fs (WriteExisting (path_join g f) v), Inr a)]) \<Longrightarrow> emits (guard_write k g f v) E Q"
  unfolding guard_write_def by (intro emits_rules) simp_all

lemma emits_read_text [emits_rules]:
  "(\<And>x r. Q x [(Fs (ReadToString p), r)]) \<Longrightarrow> emits (read_text k p) E Q"
  unfolding read_text_def by (intro emits_rules) simp

lemma emits_current_pids [emits_rules]:
  "(\<And>n r. Q n [(Fs (ReadToString (path_join g ''pids.current'')), r)]) \<Longrightarrow>
   emits (current_pids k g) E Q"
  unfolding current_pids_def read_u64_file_def by (intro emits_rules) simp

lemma emits_wait_empty:
  "emits (wait_empty k g n) E (\<lambda>_ es. \<exists>m \<le> n. \<exists>b. (\<not> b \<longrightarrow> m = n) \<and>
     calls_of es @ [Fs (RemoveDir g)] = drop_calls g m b)"
proof (induction n arbitrary: E)
  case 0
  show ?case unfolding wait_empty.simps
    by (rule emits_ret) (auto simp: drop_calls_def intro!: exI [of _ False])
next
  case (Suc n)
  let ?rd = "Fs (ReadToString (path_join g ''pids.current''))"
  have done0: "\<exists>m \<le> Suc n. \<exists>b. (\<not> b \<longrightarrow> m = Suc n) \<and>
      calls_of [(?rd, r)] @ [Fs (RemoveDir g)] = drop_calls g m b" for r
    by (intro exI [of _ 0]) (auto simp: drop_calls_def intro!: exI [of _ True])
  have more: "\<exists>m' \<le> Suc n. \<exists>b. (\<not> b \<longrightarrow> m' = Suc n) \<and>
      calls_of ((?rd, r) # (Env (SleepMs 10), r') # es) @ [Fs (RemoveDir g)] = drop_calls g m' b"
    if "\<exists>m \<le> n. \<exists>b. (\<not> b \<longrightarrow> m = n) \<and> calls_of es @ [Fs (RemoveDir g)] = drop_calls g m b"
    for r r' es
  proof -
    from that obtain m b where "m \<le> n" "\<not> b \<longrightarrow> m = n"
      "calls_of es @ [Fs (RemoveDir g)] = drop_calls g m b" by blast
    then show ?thesis
      by (intro exI [of _ "Suc m"] conjI exI [of _ b]) (auto simp: drop_calls_def)
  qed
  show ?case
    unfolding wait_empty.simps
    by (intro emits_rules; (simp only: append_Nil append_Cons)?)
      (use done0 in simp, rule emits_weaken [OF Suc.IH], simp, drule more, simp)
qed

lemma emits_drop_guard:
  "emits (drop_guard k g) E (\<lambda>_ es. \<exists>n \<le> 500. \<exists>b. (\<not> b \<longrightarrow> n = 500) \<and> calls_of es = drop_calls g n b)"
  unfolding drop_guard_def
  by (rule emits_bnd, rule emits_weaken [OF emits_wait_empty], simp, rule emits_call_ignore) simp

lemma emits_unique_id [emits_rules]:
  "(\<And>n r r'. Q n [(Env SystemTimeNow, r), (Env ProcessId, r')]) \<Longrightarrow> emits (unique_id k) E Q"
  unfolding unique_id_def Let_def by (intro emits_rules) simp

lemma drop_guard_keeps: "ev \<in> set (trace s) \<Longrightarrow> ev \<in> set (trace (snd (drop_guard k g s)))"
  by (rule emits_keeps, rule emits_weaken [OF emits_drop_guard [where E = "\<lambda>_ _. False"]]) simp_all

text \<open>The definitions a run of \<open>create\<close> on a concrete configuration unfolds.\<close>

lemmas cgroup_run = cgroup_create_def check_delegation_def guard_write_def write_cgroup_file_def unique_id_def
  call_num_def on_error_def example_config_def Let_def

lemma example_dec: "dec 0 = ''0''" "dec 64 = ''64''" "dec 50 = ''50''" "dec 100 = ''100''" "dec 8 = ''8''"
  by code_simp+

lemmas path_run = path_join_def example_dec

text \<open>
  What a creation adds to the trace. A failure after the directory was made ends with the calls
  of \<open>Drop\<close> on it; before that no directory was made.
\<close>

definition create_failed :: "event list \<Rightarrow> bool" where
  "create_failed es \<longleftrightarrow>
     (\<forall>p a. (Fs (CreateDir p 0x1FF), Inr a) \<in> set es \<longrightarrow>
        (\<exists>pre n b. n \<le> 500 \<and> calls_of es = pre @ drop_calls p n b))"

definition create_succeeded :: "sandbox_config \<Rightarrow> path \<Rightarrow> event list \<Rightarrow> bool" where
  "create_succeeded c p es \<longleftrightarrow>
     calls_of es = create_calls c p \<and>
     (\<exists>id :: u64. p = path_join (cgroup_parent c) (''sandbox-'' @ dec (unat id))) \<and>
     (\<forall>ev \<in> set es. succeeded ev \<or> fst ev \<in> {Env SystemTimeNow, Env ProcessId})"

lemma emits_check_delegation [emits_rules]:
  assumes "\<And>e es. only (\<lambda>c. \<nexists>p m. c = Fs (CreateDir p m)) es \<Longrightarrow> E e es"
    and "\<And>a b. Q () [(Fs (Exists (path_join parent ''cgroup.subtree_control'')), Inr a),
      (Fs (OpenForWrite (path_join parent ''cgroup.subtree_control'')), Inr b)]"
  shows "emits (check_delegation k parent) E Q"
  unfolding check_delegation_def Let_def
  by (intro emits_rules) (auto split: sum.splits intro!: emits_rules assms)

lemma emits_limits:
  "emits
     (bnd (guard_write k path ''memory.max'' (dec (unat (memory_max_bytes c)))) (\<lambda>_.
      bnd (guard_write k path ''memory.swap.max'' ''0'') (\<lambda>_.
      bnd (guard_write k path ''cpu.max''
             (dec (unat (cpu_quota_us c)) @ '' '' @ dec (unat (cpu_period_us c)))) (\<lambda>_.
      bnd (guard_write k path ''pids.max'' (dec (unat (pids_max c)))) (\<lambda>_.
      ret path)))))
     (\<lambda>_. only (\<lambda>c. \<exists>p v. c = Fs (WriteExisting p v)))
     (\<lambda>x es. x = path \<and> calls_of es = limit_calls c path \<and> all_ok es)"
  by (intro emits_rules) (simp_all add: limit_calls_def)

lemma drop_calls_no_create: "Fs (CreateDir p m) \<notin> set (drop_calls g n b)"
  by (auto simp: drop_calls_def)

lemma create_failed_before:
  "only (\<lambda>c. \<nexists>p m. c = Fs (CreateDir p m)) es \<Longrightarrow> create_failed es"
  "(\<And>p a. (Fs (CreateDir p 0x1FF), Inr a) \<notin> set es) \<Longrightarrow> create_failed es"
  by (force simp: create_failed_def only_def)+

lemma create_failedI:
  assumes "n \<le> 500" and "calls_of es = pre @ drop_calls p n b"
    and "\<And>q. Fs (CreateDir q 0x1FF) \<in> set pre \<Longrightarrow> q = p"
  shows "create_failed es"
proof -
  have "q = p" if "(Fs (CreateDir q 0x1FF), Inr a) \<in> set es" for q a
  proof -
    from that have "Fs (CreateDir q 0x1FF) \<in> set (calls_of es)" by force
    with assms(2) drop_calls_no_create [of q "0x1FF" p n b] have "Fs (CreateDir q 0x1FF) \<in> set pre"
      by simp
    then show ?thesis by (rule assms(3))
  qed
  with assms(1,2) show ?thesis unfolding create_failed_def by metis
qed

lemma emits_create_drop:
  assumes "\<And>q. Fs (CreateDir q 0x1FF) \<in> set (calls_of es) \<Longrightarrow> q = p"
  shows "emits (drop_guard k p) (\<lambda>_ es'. create_failed (es @ es')) (\<lambda>_ es'. create_failed (es @ es'))"
  by (rule emits_weaken [OF emits_drop_guard [where E = "\<lambda>_ _. False"]])
    (auto intro: create_failedI [OF _ _ assms])

lemma emits_cgroup_create:
  "emits (cgroup_create k c) (\<lambda>_. create_failed) (\<lambda>p. create_succeeded c p)"
  unfolding cgroup_create_def Let_def
  by (intro emits_rules; (simp only: append_assoc [symmetric])?; (rule emits_create_drop)?)
    (auto intro: create_failed_before
      simp: create_succeeded_def create_calls_def limit_calls_def Let_def)

section \<open>Properties\<close>

text \<open>
  C33. The statistics readers find a counter by its name: in a flat-keyed file of the kernel the
  value of the first line with the key, and 0 when no line has it; a longer or shorter key never
  matches.
\<close>

theorem parse_named_u64_lookup:
  assumes "\<forall>kv \<in> set kvs. stat_key (fst kv) \<and> snd kv < 2 ^ 64"
  shows "parse_named_u64 (render_stat kvs) key =
    (case map_of kvs key of None \<Rightarrow> 0 | Some v \<Rightarrow> word_of_nat v)"
proof -
  let ?f = "\<lambda>line. case split_ascii_whitespace line of
      [] \<Rightarrow> None
    | w # ws \<Rightarrow> if w = key then (case ws of [] \<Rightarrow> None | v # _ \<Rightarrow> parse_u64 v) else None"
  have "find_map ?f (map stat_line kvs) = map_option word_of_nat (map_of kvs key)"
    using assms
    by (induction kvs) (auto simp: stat_line_split parse_u64_dec)
  moreover have "str_lines (render_stat kvs) = map stat_line kvs"
    using assms by (intro str_lines_render) simp
  ultimately show ?thesis
    by (auto simp: parse_named_u64_def split: option.splits)
qed

theorem parse_named_u64_lookup_witness:
  "parse_named_u64 (render_stat [(''oom'', 5), (''oom_kill'', 2), (''oom_group_kill'', 1)]) ''oom_kill'' = 2"
  using parse_named_u64_lookup
    [of "[(''oom'', 5), (''oom_kill'', 2), (''oom_group_kill'', 1)]" "''oom_kill''"]
  by (simp add: stat_key_def is_ascii_whitespace_def)

text \<open>
  C7. A cgroup is handed out only with all its limits written: on success the calls are, in this
  order, the two delegation checks, the controllers enabled in the parent, the directory under the
  parent and the writes of memory.max, memory.swap.max, cpu.max and pids.max with the
  configured values in decimal, and every one of them succeeded.
\<close>

theorem create_writes_limits:
  assumes "cgroup_create k c s = (Inr p, t)"
  shows "\<exists>es. trace t = trace s @ es \<and> calls_of es = create_calls c p \<and>
    (\<exists>id :: u64. p = path_join (cgroup_parent c) (''sandbox-'' @ dec (unat id))) \<and>
    (\<forall>ev \<in> set es. succeeded ev \<or> fst ev \<in> {Env SystemTimeNow, Env ProcessId})"
  using emits_Inr [OF emits_cgroup_create assms] by (simp add: create_succeeded_def)

theorem create_writes_limits_witness:
  "\<exists>p t. cgroup_create obliging example_config fresh_os = (Inr p, t) \<and> length (trace t) = 10 \<and>
    Fs (WriteExisting ''/c/sandbox-0/memory.max'' ''64'') \<in> set (calls_of (trace t))"
proof -
  have r: "fst (cgroup_create obliging example_config fresh_os) = Inr ''/c/sandbox-0''"
    by (simp add: run_defs cgroup_run path_run)
  then obtain t where t: "cgroup_create obliging example_config fresh_os = (Inr ''/c/sandbox-0'', t)"
    by (metis prod.collapse)
  have "limit_calls example_config ''/c/sandbox-0'' ! 0 =
      Fs (WriteExisting ''/c/sandbox-0/memory.max'' ''64'')"
    by (simp add: limit_calls_def example_config_def path_run)
  moreover obtain es where "trace t = trace fresh_os @ es"
    and "calls_of es = create_calls example_config ''/c/sandbox-0''"
    using create_writes_limits [OF t] by blast
  ultimately show ?thesis
    using t by (auto simp: create_calls_def limit_calls_def fresh_os_def Let_def
      dest: arg_cong [of _ _ length])
qed

text \<open>
  C31. A failed creation leaves no directory behind untried: if the directory was made, the calls
  end with those of \<open>Drop\<close> on it, at most 500 polls of pids.current and the removal.
\<close>

theorem create_failure_removes:
  assumes "cgroup_create k c s = (Inl e, t)"
  shows "\<exists>es. trace t = trace s @ es \<and>
    (\<forall>p a. (Fs (CreateDir p 0x1FF), Inr a) \<in> set es \<longrightarrow>
       (\<exists>pre n b. n \<le> 500 \<and> calls_of es = pre @ drop_calls p n b))"
  using emits_Inl [OF emits_cgroup_create assms] by (simp add: create_failed_def)

theorem create_failure_removes_witness:
  "\<exists>t n b pre. cgroup_create (failing (\<lambda>c. c = Fs (WriteExisting ''/c/sandbox-0/pids.max'' ''8'')) (OsError EIO))
      example_config fresh_os = (Inl (CgroupWriteFailed ''pids.max'' (OsError EIO)), t) \<and>
    calls_of (trace t) = pre @ drop_calls ''/c/sandbox-0'' n b"
proof -
  let ?k = "failing (\<lambda>c. c = Fs (WriteExisting ''/c/sandbox-0/pids.max'' ''8'')) (OsError EIO)"
  let ?run = "cgroup_create ?k example_config fresh_os"
  have r: "fst ?run = Inl (CgroupWriteFailed ''pids.max'' (OsError EIO)) \<and>
      (Fs (CreateDir ''/c/sandbox-0'' 0x1FF), Inr done_ans) \<in> set (trace (snd ?run))"
    by (simp add: run_defs cgroup_run path_run drop_guard_keeps)
  then obtain t where t: "?run = (Inl (CgroupWriteFailed ''pids.max'' (OsError EIO)), t)"
    by (metis prod.collapse)
  from create_failure_removes [OF t] r show ?thesis
    unfolding t by (fastforce simp: fresh_os_def)
qed

text \<open>
  \<open>Drop\<close> is bounded and always tries the removal: after at most 500 rounds of reading
  pids.current and sleeping, fewer only when the group was seen empty, its last call removes the
  directory; it writes nothing, in particular never \<open>cgroup.kill\<close>.
\<close>

theorem drop_guard_bounded:
  "\<exists>es n b. trace (snd (drop_guard k g s)) = trace s @ es \<and> n \<le> 500 \<and> (b \<or> n = 500) \<and>
     calls_of es = drop_calls g n b \<and> (\<nexists>p v. Fs (WriteExisting p v) \<in> set (calls_of es))"
proof -
  let ?P = "\<lambda>es. \<exists>n b. n \<le> 500 \<and> (b \<or> n = 500) \<and> calls_of es = drop_calls g n b \<and>
    (\<nexists>p v. Fs (WriteExisting p v) \<in> set (calls_of es))"
  have nowrite: "Fs (WriteExisting p v) \<notin> set (drop_calls g n b)" for p v n b
    by (auto simp: drop_calls_def)
  have "emits (drop_guard k g) (\<lambda>_. ?P) (\<lambda>_. ?P)"
  proof (rule emits_weaken [OF emits_drop_guard [where E = "\<lambda>_ _. False"]])
    fix es
    assume "\<exists>n \<le> 500. \<exists>b. (\<not> b \<longrightarrow> n = 500) \<and> calls_of es = drop_calls g n b"
    then obtain n b where "n \<le> 500" "b \<or> n = 500" and c: "calls_of es = drop_calls g n b" by auto
    moreover have "\<nexists>p v. Fs (WriteExisting p v) \<in> set (calls_of es)" by (simp add: c nowrite)
    ultimately show "?P es" by blast
  qed simp
  then show ?thesis by (rule emits_both [THEN exE]) blast
qed

end
