(* ===== verification/Report.thy ===== *)
theory Report
  imports Config
begin

text \<open>
  \<^verbatim>\<open>src/report.rs\<close>: the report of an execution and the reasons for which a process stops, and
  \<open>termination_string\<close> of \<^verbatim>\<open>src/bin/run.rs\<close>, their printed form.
\<close>

datatype termination_reason =
    Exited int
  | TimedOut
  | OomKilled
  | SeccompViolation u32
  | SignalKilled int
  | CgroupKillFallback

record execution_report =
  exit_status :: int
  reason :: termination_reason
  stdout_bytes :: "u8 list"
  stderr_bytes :: "u8 list"
  wall_time :: int
  rep_peak_memory_bytes :: u64
  rep_cpu_time_us :: u64
  seccomp_violation :: "u32 option"

definition termination_string :: "termination_reason \<Rightarrow> string" where
  "termination_string r =
     (case r of
        Exited code \<Rightarrow> ''exited('' @ dec_int code @ '')''
      | TimedOut \<Rightarrow> ''timed_out''
      | OomKilled \<Rightarrow> ''oom_killed''
      | SeccompViolation n \<Rightarrow> ''seccomp_violation('' @ dec (unat n) @ '')''
      | SignalKilled sig \<Rightarrow> ''signal_killed('' @ dec_int sig @ '')''
      | CgroupKillFallback \<Rightarrow> ''cgroup_kill_fallback'')"

lemma dec_int_inj:
  assumes "dec_int i = dec_int j"
  shows "i = j"
proof -
  have neg: "dec (nat n) \<noteq> CHR ''-'' # s" for n s
    using dec_hd_digit [of "nat n" "CHR ''-''" s] by (auto simp: not_digit_chars)
  show ?thesis
    using assms neg neg [symmetric] by (auto simp: dec_int_def dest: dec_inj split: if_splits)
qed

text \<open>
  The printed reason determines the reason: two executions that print the same
  \<open>termination\<close> stopped for the same reason, with the same code or signal.
\<close>

theorem termination_string_injective:
  "termination_string r = termination_string r' \<longleftrightarrow> r = r'"
proof
  assume "termination_string r = termination_string r'"
  then show "r = r'"
    by (cases r; cases r') (auto simp: termination_string_def word_unat_eq_iff dest: dec_int_inj dec_inj)
qed simp

end
