(* ===== verification/Reap.thy ===== *)
theory Reap
  imports StatusFile Cgroup Report
begin

text \<open>
  \<open>reap_child\<close> and \<open>wait_pidfd\<close> of \<^verbatim>\<open>src/supervisor.rs\<close>: how the supervisor learns the way its child ended,
  which is not its own child but the fork server's.
\<close>

section \<open>Definitions\<close>

primrec poll_status :: "'w kernel \<Rightarrow> path \<Rightarrow> nat \<Rightarrow> ('w, 'e, string option) io" where
  "poll_status k p 0 = ret None"
| "poll_status k p (Suc n) =
     bnd (call_try k (Fs (ReadToString p))) (\<lambda>r.
     case r of
       Inr a \<Rightarrow> ret (Some (string_at (ans_data a)))
     | Inl _ \<Rightarrow> bnd (call_ignore k (Env (SleepMs 10))) (\<lambda>_. poll_status k p n))"

definition decode_status :: "int \<Rightarrow> int \<times> termination_reason" where
  "decode_status status =
     (if status AND 0x7F = 0 then
        let exit_code = drop_bit 8 status AND 0xFF in (exit_code, Exited exit_code)
      else
        let sig = status AND 0x7F in
        if sig = SIGSYS then (sig, SeccompViolation 0) else (sig, SignalKilled sig))"

definition reap_child :: "'w kernel \<Rightarrow> i32 \<Rightarrow> cgroup_guard \<Rightarrow> ('w, sandbox_error, int \<times> termination_reason) io" where
  "reap_child k pid cgroup =
     (let status_path = ''/tmp/sandbox-status-'' @ dec_int (sint pid) in
      bnd (poll_status k status_path 100) (\<lambda>status_str.
      case status_str of
        None \<Rightarrow> bnd get_errno (\<lambda>e. throw (WaitFailed e))
      | Some s \<Rightarrow>
          (case parse_i32 (trim s) of
             None \<Rightarrow> bnd get_errno (\<lambda>e. throw (WaitFailed e))
           | Some status \<Rightarrow>
               bnd (call_ignore k (Fs (RemoveRegular status_path))) (\<lambda>_.
               bnd (oom_kill_count k cgroup) (\<lambda>n.
               if 0 < n then ret (- 1, OomKilled) else ret (decode_status status))))))"

definition wait_pidfd :: "'w kernel \<Rightarrow> fd \<Rightarrow> ('w, 'e, unit) io" where
  "wait_pidfd k pidfd =
     bnd (call_try k (Fd (AsyncFdNew pidfd))) (\<lambda>r.
     case r of Inl _ \<Rightarrow> ret () | Inr _ \<Rightarrow> call_ignore k (Fd (AwaitReadable pidfd)))"

subsection \<open>Specification\<close>

text \<open>How a process ends, and the word \<open>wait\<close> gives for it.\<close>

datatype wait_status = WExited nat | WSignaled nat bool

fun wf_wait :: "wait_status \<Rightarrow> bool" where
  "wf_wait (WExited c) \<longleftrightarrow> c < 256"
| "wf_wait (WSignaled sig core) \<longleftrightarrow> 0 < sig \<and> sig < 127"

fun wait_word :: "wait_status \<Rightarrow> int" where
  "wait_word (WExited c) = int c * 256"
| "wait_word (WSignaled sig core) = int sig + (if core then 128 else 0)"

fun reason_of :: "wait_status \<Rightarrow> int \<times> termination_reason" where
  "reason_of (WExited c) = (int c, Exited (int c))"
| "reason_of (WSignaled sig core) =
     (int sig, if int sig = SIGSYS then SeccompViolation 0 else SignalKilled (int sig))"

section \<open>Lemmas\<close>

lemma and_masks: "(x :: int) AND 0x7F = x mod 128" "(x :: int) AND 0xFF = x mod 256" "drop_bit 8 (x :: int) = x div 256"
proof -
  show "x AND 0x7F = x mod 128" using take_bit_eq_mask [of 7 x] by (simp add: take_bit_eq_mod mask_eq_exp_minus_1)
  show "x AND 0xFF = x mod 256" using take_bit_eq_mask [of 8 x] by (simp add: take_bit_eq_mod mask_eq_exp_minus_1)
  show "drop_bit 8 x = x div 256" by (simp add: drop_bit_eq_div)
qed

lemma decode_wait_word: "wf_wait w \<Longrightarrow> decode_status (wait_word w) = reason_of w"
  by (cases w) (auto simp: decode_status_def and_masks Let_def SIGSYS_def mod_eq_0_iff_dvd dest!: zdvd_imp_le)

lemma poll_status_100:
  "poll_status k p 100 = bnd (call_try k (Fs (ReadToString p))) (\<lambda>r.
     case r of
       Inr a \<Rightarrow> ret (Some (string_at (ans_data a)))
     | Inl _ \<Rightarrow> bnd (call_ignore k (Env (SleepMs 10))) (\<lambda>_. poll_status k p 99))"
  using poll_status.simps(2) [of k p 99] by simp

lemma trim_line: "trim (dec n @ [newline]) = dec n"
proof (rule trim_framed)
  show "\<not> is_space (hd (dec n))" "\<not> is_space (last (dec n))"
    using dec_all_digits [OF hd_in_set, of n] dec_all_digits [OF last_in_set, of n] digit_no_space by simp_all
qed (simp_all add: is_space_def newline_def)

lemma example_texts:
  "u64_of_text [] = 0"
  "parse_named_u64 [] key = 0" "parse_cpu_stat [] = 0"
  by (simp_all add: u64_of_text_def parse_u64_def parse_nat_def strip_plus_def trim_def
      parse_named_u64_def parse_cpu_stat_def)

lemma wait_word_bounds: "wf_wait w \<Longrightarrow> 0 \<le> wait_word w \<and> wait_word w < 2 ^ 16"
  by (cases w) auto

lemma wait_word_line:
  assumes "wf_wait w"
  shows "status_line (word_of_int (wait_word w)) = dec_int (wait_word w) @ [newline]"
proof -
  have "sint (word_of_int (wait_word w) :: i32) = wait_word w"
    using wait_word_bounds [OF assms] by (simp add: signed_of_int signed_take_bit_int_eq_self)
  then show ?thesis using wait_word_bounds [OF assms] by (simp add: status_line_def)
qed

lemma wait_word_parsed:
  assumes "wf_wait w"
  shows "parse_i32 (trim (dec_int (wait_word w) @ [newline])) = Some (wait_word w)"
proof -
  have "trim (dec_int (wait_word w) @ [newline]) = dec_int (wait_word w)"
    using wait_word_bounds [OF assms] trim_line [of "nat (wait_word w)"] by (simp add: dec_int_def)
  then show ?thesis using wait_word_bounds [OF assms] by (simp add: parse_i32_dec_int)
qed

text \<open>The handler's part for one child: the file it opens and what it writes.\<close>

lemma handler_wrote:
  assumes "0 < sint pid" and "trace (snd (write_status ovf k pid status s)) = trace s @ es"
    and "Fd (OpenFd path flags mode) \<in> set (calls_of es)" and "Fd (WriteFd fd bytes) \<in> set (calls_of es)"
  shows "path = status_path pid" and "bytes = bytes_of (status_line status)"
proof -
  have "emits (write_status ovf k pid status) (\<lambda>_ es. negation_panic ovf pid status es \<or> file_events pid status es)
      (\<lambda>_ es. negation_panic ovf pid status es \<or> file_events pid status es)"
    by (rule emits_weaken [OF emits_write_status [OF assms(1)]]) simp_all
  from emits_both [OF this, of s] assms(2) have "negation_panic ovf pid status es \<or> file_events pid status es" by auto
  then obtain r rest where "es = (Fd (OpenFd (status_path pid) {O_WRONLY, O_CREAT, O_TRUNC, O_CLOEXEC} 0x1A4), r) # rest"
    "calls_of rest = (case r of Inl _ \<Rightarrow> []
       | Inr f \<Rightarrow> [Fd (WriteFd (ans_num f) (bytes_of (status_line status))), Fd (CloseFd (ans_num f))])"
  proof
    assume "negation_panic ovf pid status es"
    then have False using assms(4) by (auto simp: negation_panic_def)
    then show thesis ..
  qed (auto simp: file_events_def)
  then have "set (calls_of es) \<subseteq> {Fd (OpenFd (status_path pid) {O_WRONLY, O_CREAT, O_TRUNC, O_CLOEXEC} 0x1A4)} \<union>
      range (\<lambda>f. Fd (WriteFd f (bytes_of (status_line status)))) \<union> range (\<lambda>f. Fd (CloseFd f))"
    by (cases r) (auto simp del: set_map)
  with assms(3,4) show "path = status_path pid" "bytes = bytes_of (status_line status)" by blast+
qed

section \<open>Properties\<close>

text \<open>
  C10. The supervisor reads what the fork server's signal handler wrote: for every way a process can end, if
  the handler was given its wait status, and the file the handler opened holds the bytes it wrote when
  the supervisor reads it, the result is the exit code or the signal, unless the kernel counted an
  out-of-memory kill, which comes first.
\<close>

theorem wait_status_read:
  assumes "wf_wait w" and "0 < sint pid"
    and "trace (snd (write_status ovf k' pid (word_of_int (wait_word w)) u)) = trace u @ es"
    and "Fd (OpenFd path flags mode) \<in> set (calls_of es)" and "Fd (WriteFd fd bytes) \<in> set (calls_of es)"
    and "k (Fs (ReadToString path)) (world s) = (Inr a, w1)" and "ans_data a = bytes"
    and "k (Fs (RemoveRegular path)) w1 = (r2, w2)"
    and "k (Fs (ReadToString (path_join cg ''memory.events''))) w2 = (Inr b, w3)"
  shows "fst (reap_child k pid cg s) =
    Inr (if parse_named_u64 (string_at (ans_data b)) ''oom_kill'' = 0 then reason_of w else (- 1, OomKilled))"
proof -
  note h = handler_wrote [OF assms(2) assms(3) assms(4) assms(5)]
  have "bytes = bytes_of (dec_int (wait_word w) @ [newline])" using h(2) wait_word_line [OF assms(1)] by simp
  then have p: "parse_i32 (trim (string_at (ans_data a))) = Some (wait_word w)"
    using wait_word_parsed [OF assms(1)] assms(7) by (simp del: map_append)
  have path: "''/tmp/sandbox-status-'' @ dec_int (sint pid) = path"
    by (simp add: h(1) status_path_def status_prefix_def)
  obtain s1 where poll: "poll_status k path 100 s = (Inr (Some (string_at (ans_data a))) :: sandbox_error + string option, s1)"
    and w1: "world s1 = w1"
    by (simp add: poll_status_100 bnd_def call_try_def attempt_def syscall_def assms(6))
  obtain s2 where remove: "call_ignore k (Fs (RemoveRegular path)) s1 = (Inr () :: sandbox_error + unit, s2)"
    and w2: "world s2 = w2"
    by (simp add: call_ignore_def syscall_def w1 assms(8))
  have oom: "fst (oom_kill_count k cg s2) = (Inr (parse_named_u64 (string_at (ans_data b)) ''oom_kill'') :: sandbox_error + u64)"
    by (simp add: oom_kill_count_def read_text_def bnd_def call_try_def attempt_def syscall_def w2 assms(9))
  show ?thesis
    unfolding reap_child_def path Let_def
    using oom by (cases "oom_kill_count k cg s2 :: (sandbox_error + u64) \<times> _")
      (simp add: bnd_def poll remove p decode_wait_word [OF assms(1)])
qed

theorem wait_status_read_witness:
  "fst (reap_child (scripted (\<lambda>c. case c of
       Fs (ReadToString p) \<Rightarrow> Inr (done_ans\<lparr>ans_data := if p = ''/tmp/sandbox-status-42'' then [51, 49, 10] else []\<rparr>)
     | _ \<Rightarrow> Inr done_ans)) 42 ''/cg'' fresh_os) = Inr (31, SeccompViolation 0)"
  (is "fst (reap_child ?k 42 ''/cg'' fresh_os) = _")
proof -
  let ?run = "write_status True obliging 42 (word_of_int (wait_word (WSignaled 31 False))) fresh_os"
  have calls: "calls_of (trace (snd ?run)) =
      [Fd (OpenFd ''/tmp/sandbox-status-42'' {O_WRONLY, O_CREAT, O_TRUNC, O_CLOEXEC} 0x1A4), Fd (WriteFd 0 [51, 49, 10]), Fd (CloseFd 0)]"
    by code_simp
  have n: "path_join ''/cg'' ''memory.events'' \<noteq> ''/tmp/sandbox-status-42''" by (simp add: path_join_def)
  have "fst (reap_child ?k 42 ''/cg'' fresh_os) =
      Inr (if parse_named_u64 (string_at []) ''oom_kill'' = 0 then reason_of (WSignaled 31 False) else (- 1, OomKilled))"
    by (rule wait_status_read [of "WSignaled 31 False" 42 True obliging fresh_os "trace (snd ?run)"
          "''/tmp/sandbox-status-42''" "{O_WRONLY, O_CREAT, O_TRUNC, O_CLOEXEC}" "0x1A4" "0" "[51, 49, 10]" ?k fresh_os
          "done_ans\<lparr>ans_data := [51, 49, 10]\<rparr>" "()" "Inr done_ans" "()" "''/cg''" "done_ans\<lparr>ans_data := []\<rparr>" "()", THEN trans])
      (simp_all only: calls, simp_all add: scripted_def fresh_os_def n)
  then show ?thesis by (simp add: example_texts SIGSYS_def)
qed

end
