(* ===== verification/Supervisor.thy ===== *)
theory Supervisor
  imports Collect Reap
begin

text \<open>
  \<^verbatim>\<open>src/supervisor.rs\<close>: one execution from the parent's side, with \<open>Runtime\<close> of \<^verbatim>\<open>src/lib.rs\<close>. The
  run takes the fuel of its collection, and has the value None if that ends first. What \<open>Drop\<close> does at the
  end of a scope is written out (\<open>cleanup\<close>, \<open>or_close\<close>).
\<close>

section \<open>Definitions\<close>

subsection \<open>Arguments and environment\<close>

definition build_argv :: "sandbox_config \<Rightarrow> sandbox_error + string list" where
  "build_argv c =
     collect_results (\<lambda>s. case cstring_new s of
         None \<Rightarrow> Inl (ConfigInvalid ''argv contains null byte'') | Some a \<Rightarrow> Inr a) (argv c)"

definition build_env :: "sandbox_config \<Rightarrow> sandbox_error + string list" where
  "build_env c =
     collect_results (\<lambda>(k, v). case cstring_new (k @ ''='' @ v) of
         None \<Rightarrow> Inl (ConfigInvalid ''env key or value contains null byte'') | Some a \<Rightarrow> Inr a) (env c)"

text \<open>The fields of a struct expression are evaluated in the order written, after the two ids.\<close>

definition build_request :: "'w kernel \<Rightarrow> sandbox_config \<Rightarrow> cgroup_guard \<Rightarrow> ('w, sandbox_error, spawn_request) io" where
  "build_request k c cgroup =
     bnd (call_num k (Env Getuid)) (\<lambda>host_uid.
     bnd (call_num k (Env Getgid)) (\<lambda>host_gid.
     bnd (lift (build_argv c)) (\<lambda>av.
     bnd (lift (build_env c)) (\<lambda>ev.
     ret \<lparr>rq_workspace_path = workspace_path c, rq_extra_ro_mounts = extra_ro_mounts c,
       rq_memory_max_bytes = memory_max_bytes c, rq_cpu_quota_us = cpu_quota_us c,
       rq_cpu_period_us = cpu_period_us c, rq_pids_max = pids_max c,
       rq_ttl_secs = as_secs (ttl c), rq_ttl_nanos = subsec_nanos (ttl c), rq_argv = av, rq_env = ev,
       rq_max_open_files = max_open_files (limits c), rq_max_file_size_bytes = max_file_size_bytes (limits c),
       rq_stack_size_bytes = stack_size_bytes (limits c), rq_cgroup_path = cgroup,
       rq_host_uid = word_of_int host_uid, rq_host_gid = word_of_int host_gid\<rparr>))))"

subsection \<open>The error pipe\<close>

definition child_error_of :: "u8 list \<Rightarrow> sandbox_error" where
  "child_error_of buf =
     ChildSetupFailed (case from_u8 (buf ! 0) of None \<Rightarrow> ExecStage | Some stage \<Rightarrow> stage)
       (from_le (take 4 (drop 1 buf)))"

text \<open>A read that fails is no report: only a positive length is.\<close>

definition confirm_exec :: "'w kernel \<Rightarrow> fd \<Rightarrow> ('w, sandbox_error, unit) io" where
  "confirm_exec k err_pipe_rd =
     bnd (call_try k (Fd (ReadFd err_pipe_rd 5))) (\<lambda>r.
     case r of
       Inl _ \<Rightarrow> ret ()
     | Inr a \<Rightarrow> if ans_data a \<noteq> [] then throw (child_error_of (fill_buf 5 (ans_data a))) else ret ())"

subsection \<open>A run\<close>

text \<open>The end of a scope that is left, with a value or an error; a run without fuel is still in it.\<close>

definition cleanup :: "('w, 'e, 'a option) io \<Rightarrow> ('w, 'e, unit) io \<Rightarrow> ('w, 'e, 'a option) io" where
  "cleanup m d = bnd (attempt m) (\<lambda>r. case r of Inr None \<Rightarrow> ret None | _ \<Rightarrow> bnd d (\<lambda>_. lift r))"

definition conclude ::
  "'w kernel \<Rightarrow> cgroup_guard \<Rightarrow> fd \<Rightarrow> i32 \<Rightarrow> bool \<Rightarrow> ('w, sandbox_error, int \<times> termination_reason) io" where
  "conclude k cgroup pidfd child_pid timed_out =
     (if timed_out then
        bnd (kill_all k cgroup) (\<lambda>_. bnd (wait_pidfd k pidfd) (\<lambda>_. ret (- 1, TimedOut)))
      else reap_child k child_pid cgroup)"

definition supervise ::
  "'w kernel \<Rightarrow> sandbox_config \<Rightarrow> nat \<Rightarrow> cgroup_guard \<Rightarrow> spawn_response \<Rightarrow> fd \<Rightarrow>
   ('w, sandbox_error, execution_report option) io" where
  "supervise k c n cgroup sr master =
     bnd (collect_output k master (sr_stderr_pipe_rd sr) (ttl c) n) (\<lambda>collected.
     case collected of
       None \<Rightarrow> ret None
     | Some (out, err, timed_out) \<Rightarrow>
         bnd (call_num k (Env InstantElapsed)) (\<lambda>wall.
         bnd (conclude k cgroup (sr_pidfd sr) (sr_child_pid sr) timed_out) (\<lambda>(exit_code, termination_reason).
         bnd (peak_memory_bytes k cgroup) (\<lambda>peak.
         bnd (cpu_time_us k cgroup) (\<lambda>cpu.
         ret (Some \<lparr>exit_status = exit_code, reason = termination_reason, stdout_bytes = out,
           stderr_bytes = err, wall_time = wall, rep_peak_memory_bytes = peak,
           rep_cpu_time_us = cpu,
           seccomp_violation = (case termination_reason of SeccompViolation v \<Rightarrow> Some v | _ \<Rightarrow> None)\<rparr>))))))"

definition execute ::
  "'w kernel \<Rightarrow> (i32 \<Rightarrow> errno) \<Rightarrow> fd \<Rightarrow> sandbox_config \<Rightarrow> nat \<Rightarrow> cgroup_guard \<Rightarrow>
   ('w, sandbox_error, execution_report option) io" where
  "execute k from_raw sock c n cgroup =
     bnd (open_pty k) (\<lambda>pty.
     let master = pty_master pty; slave = pty_slave pty in
     bnd (or_close k [master, slave]
            (bnd (build_request k c cgroup) (\<lambda>req. request_spawn k from_raw sock req master slave))) (\<lambda>sr.
     bnd (close_all k [slave]) (\<lambda>_.
     bnd (call_ignore k (Env InstantNow)) (\<lambda>_.
     bnd (or_close k [sr_pidfd sr, sr_err_pipe_rd sr, sr_stderr_pipe_rd sr, master]
            (confirm_exec k (sr_err_pipe_rd sr))) (\<lambda>_.
     bnd (call_ignore k (Fd (SetNonblock (sr_stderr_pipe_rd sr)))) (\<lambda>_.
     cleanup (supervise k c n cgroup sr master) (close_all k [sr_pidfd sr, sr_err_pipe_rd sr])))))))"

definition run ::
  "'w kernel \<Rightarrow> (i32 \<Rightarrow> errno) \<Rightarrow> fd \<Rightarrow> sandbox_config \<Rightarrow> nat \<Rightarrow> ('w, sandbox_error, execution_report option) io" where
  "run k from_raw sock c n =
     bnd (cgroup_create k c) (\<lambda>cgroup. cleanup (execute k from_raw sock c n cgroup) (drop_guard k cgroup))"

subsection \<open>The runtime\<close>

definition runtime_init :: "'w kernel \<Rightarrow> (string \<Rightarrow> u32) \<Rightarrow> nat \<Rightarrow> ('w, sandbox_error, spawned) io" where
  "runtime_init k sys n = spawn k sys n"

definition runtime_run ::
  "'w kernel \<Rightarrow> (i32 \<Rightarrow> errno) \<Rightarrow> fd \<Rightarrow> sandbox_config \<Rightarrow> nat \<Rightarrow> ('w, sandbox_error, execution_report option) io" where
  "runtime_run k from_raw sock c n = bnd (lift (validate c)) (\<lambda>_. run k from_raw sock c n)"

subsection \<open>Specifications\<close>

text \<open>What every report satisfies.\<close>

definition report_ok :: "execution_report \<Rightarrow> bool" where
  "report_ok rep \<longleftrightarrow>
     (case reason rep of
        Exited c \<Rightarrow> 0 \<le> c \<and> c < 256 \<and> exit_status rep = c
      | TimedOut \<Rightarrow> exit_status rep = - 1
      | OomKilled \<Rightarrow> exit_status rep = - 1
      | SeccompViolation n \<Rightarrow> n = 0 \<and> exit_status rep = SIGSYS
      | SignalKilled sig \<Rightarrow> 0 < sig \<and> sig < 128 \<and> sig \<noteq> SIGSYS \<and> exit_status rep = sig
      | CgroupKillFallback \<Rightarrow> False) \<and>
     seccomp_violation rep = (case reason rep of SeccompViolation n \<Rightarrow> Some n | _ \<Rightarrow> None)"

section \<open>Reports\<close>

lemma decode_status_ok:
  "decode_status st = (code, rsn) \<Longrightarrow> report_ok \<lparr>exit_status = code, reason = rsn, stdout_bytes = out,
     stderr_bytes = err, wall_time = wall, rep_peak_memory_bytes = peak, rep_cpu_time_us = cpu,
     seccomp_violation = (case rsn of SeccompViolation v \<Rightarrow> Some v | _ \<Rightarrow> None)\<rparr>"
  using pos_mod_sign [of 128 st] pos_mod_bound [of 128 st]
  by (auto simp: decode_status_def and_masks Let_def report_ok_def SIGSYS_def split: if_splits)

section \<open>What a run does\<close>

lemma emits_any:
  assumes "emits m E Q" shows "emits m (\<lambda>_ _. True) (\<lambda>_ _. True)"
  using assms by (rule emits_weaken) simp_all

text \<open>A program whose results satisfy \<open>P\<close>.\<close>

definition gives :: "('w, 'e, 'a) io \<Rightarrow> ('a \<Rightarrow> bool) \<Rightarrow> bool" where
  "gives m P \<longleftrightarrow> (\<forall>s x t. m s = (Inr x, t) \<longrightarrow> P x)"

lemma gives_bnd: "(\<And>x. gives (f x) P) \<Longrightarrow> gives (bnd m f) P"
  by (auto simp: gives_def bnd_def split: prod.splits sum.splits)

lemma gives_mono: "gives m P \<Longrightarrow> (\<And>x. P x \<Longrightarrow> Q x) \<Longrightarrow> gives m Q"
  by (auto simp: gives_def)

lemma gives_bnd2: "gives m P \<Longrightarrow> (\<And>x. P x \<Longrightarrow> gives (f x) Q) \<Longrightarrow> gives (bnd m f) Q"
  by (auto simp: gives_def bnd_def split: prod.splits sum.splits) blast

lemma gives_simple: "P x \<Longrightarrow> gives (ret x) P" "gives (throw e) P" "(\<And>x. r = Inr x \<Longrightarrow> P x) \<Longrightarrow> gives (lift r) P"
  by (auto simp: gives_def)

lemma gives_cleanup:
  fixes m :: "('w, 'e, 'a option) io"
  assumes "gives m P" and "P None" shows "gives (cleanup m d) P"
  unfolding cleanup_def
proof (rule gives_bnd2 [where P = "\<lambda>r. case r of Inl _ \<Rightarrow> True | Inr x \<Rightarrow> P x"])
  show "gives (attempt m) (\<lambda>r. case r of Inl _ \<Rightarrow> True | Inr x \<Rightarrow> P x)"
    using assms(1) by (auto simp: gives_def attempt_def split: sum.splits prod.splits)
next
  fix r :: "'e + 'a option" assume "case r of Inl _ \<Rightarrow> True | Inr x \<Rightarrow> P x"
  then show "gives (case r of Inr None \<Rightarrow> ret None | _ \<Rightarrow> bnd d (\<lambda>_. lift r)) P"
    by (auto split: sum.splits option.splits intro!: gives_bnd gives_simple assms(2))
qed

lemma gives_reap: "gives (reap_child k pid cg) (\<lambda>x. x = (- 1, OomKilled) \<or> (\<exists>st. x = decode_status st))"
  unfolding reap_child_def Let_def
  by (intro gives_bnd) (auto split: option.splits intro!: gives_bnd gives_simple)

lemma gives_conclude:
  "gives (conclude k cg pidfd pid to) (\<lambda>x. x = (- 1, OomKilled) \<or> x = (- 1, TimedOut) \<or> (\<exists>st. x = decode_status st))"
proof (cases to)
  case True
  then show ?thesis by (auto simp: conclude_def intro!: gives_bnd gives_simple)
next
  case False
  then show ?thesis using gives_reap [of k pid cg] by (simp add: conclude_def gives_def) blast
qed

lemma gives_supervise: "gives (supervise k c n cg sr master) (\<lambda>r. \<forall>rep. r = Some rep \<longrightarrow> report_ok rep)"
  unfolding supervise_def
proof (intro gives_bnd, split option.split, intro conjI allI impI, simp add: gives_simple,
    split prod.split, split prod.split, intro allI impI, rule gives_bnd, rule gives_bnd2 [OF gives_conclude], split prod.split,
    intro allI impI gives_bnd gives_simple)
  fix x code rsn out err wall peak cpu rep
  assume x: "x = (- 1, OomKilled) \<or> x = (- 1, TimedOut) \<or> (\<exists>st. x = decode_status st)"
    and eq: "x = (code, rsn)"
    and rep: "Some \<lparr>exit_status = code, reason = rsn, stdout_bytes = out, stderr_bytes = err, wall_time = wall,
      rep_peak_memory_bytes = peak, rep_cpu_time_us = cpu,
      seccomp_violation = (case rsn of SeccompViolation v \<Rightarrow> Some v | _ \<Rightarrow> None)\<rparr> = Some rep"
  from x eq consider "code = - 1" "rsn = OomKilled" | "code = - 1" "rsn = TimedOut" | st where "decode_status st = (code, rsn)"
    by auto
  then show "report_ok rep"
  proof cases
    case 3
    from decode_status_ok [OF this] rep show ?thesis by auto
  qed (use rep in \<open>auto simp: report_ok_def\<close>)
qed

lemma gives_run: "gives (run k from_raw sock c n) (\<lambda>r. \<forall>rep. r = Some rep \<longrightarrow> report_ok rep)"
  unfolding run_def execute_def Let_def
  by (intro gives_bnd gives_cleanup gives_supervise) simp_all

subsection \<open>The cgroup at the end\<close>

lemma emits_cleanup [emits_rules]:
  fixes m :: "('w, 'e, 'a option) io"
  assumes "emits m (\<lambda>e es. emits d (\<lambda>_ _. False) (\<lambda>_ es'. E e (es @ es')))
    (\<lambda>x es. case x of None \<Rightarrow> Q None es | Some y \<Rightarrow> emits d (\<lambda>_ _. False) (\<lambda>_ es'. Q (Some y) (es @ es')))"
  shows "emits (cleanup m d) E Q"
  unfolding cleanup_def
proof (rule emits_bnd, rule emits_attempt, rule emits_weaken [OF assms])
  fix e es
  assume d: "emits d (\<lambda>_ _. False) (\<lambda>_ es'. E e (es @ es'))"
  have "emits (bnd d (\<lambda>_. lift (Inl e :: 'e + 'a option))) (\<lambda>e es'. E e (es @ es')) (\<lambda>y es'. Q y (es @ es'))"
    by (rule emits_bnd, rule emits_weaken [OF d]) (auto intro: emits_lift)
  then show "emits (case Inl e of Inr None \<Rightarrow> ret None | _ \<Rightarrow> bnd d (\<lambda>_. lift (Inl e)))
      (\<lambda>e es'. E e (es @ es')) (\<lambda>y es'. Q y (es @ es'))" by simp
next
  fix x :: "'a option" and es
  assume d: "case x of None \<Rightarrow> Q None es | Some y \<Rightarrow> emits d (\<lambda>_ _. False) (\<lambda>_ es'. Q (Some y) (es @ es'))"
  show "emits (case Inr x of Inr None \<Rightarrow> ret None | _ \<Rightarrow> bnd d (\<lambda>_. lift (Inr x)))
      (\<lambda>e es'. E e (es @ es')) (\<lambda>y es'. Q y (es @ es'))"
  proof (cases x)
    case None
    with d show ?thesis by (simp add: emits_ret)
  next
    case (Some y)
    with d have d': "emits d (\<lambda>_ _. False) (\<lambda>_ es'. Q (Some y) (es @ es'))" by simp
    have "emits (bnd d (\<lambda>_. lift (Inr (Some y) :: 'e + 'a option))) (\<lambda>e es'. E e (es @ es')) (\<lambda>y es'. Q y (es @ es'))"
      by (rule emits_bnd, rule emits_weaken [OF d']) (auto intro: emits_lift)
    with Some show ?thesis by simp
  qed
qed

lemma stays_cleanup [stays_rules]: "stays N m \<Longrightarrow> stays N d \<Longrightarrow> stays N (cleanup m d)"
  unfolding cleanup_def by (auto intro!: stays_rules split: sum.splits option.splits)

definition no_mkdir :: "call \<Rightarrow> bool" where
  "no_mkdir c \<longleftrightarrow> (\<nexists>p m. c = Fs (CreateDir p m))"

lemma no_mkdir_simps [simp]: "no_mkdir (Fd d)" "no_mkdir (Env e)"
  by (simp_all add: no_mkdir_def)

lemma plain_no_mkdir: "plain c \<Longrightarrow> no_mkdir c"
  by (auto simp: no_mkdir_def)

lemma stays_poll_status: "stays plain (poll_status k p n)"
  by (induction n) (auto intro!: stays_rules simp only: poll_status.simps plain.simps split: sum.splits)

lemma stays_reads:
  "stays plain (peak_memory_bytes k cg)" "stays plain (cpu_time_us k cg)" "stays plain (oom_kill_count k cg)"
  unfolding peak_memory_bytes_def cpu_time_us_def oom_kill_count_def read_u64_file_def read_text_def
  by (auto intro!: stays_rules)

lemma stays_reap: "stays plain (reap_child k pid cg)"
  unfolding reap_child_def Let_def
  by (auto intro!: stays_rules stays_poll_status stays_reads split: option.splits)

lemma stays_conclude: "stays plain (conclude k cg pidfd pid to)"
  unfolding conclude_def kill_all_def guard_write_def write_cgroup_file_def wait_pidfd_def
  by (auto intro!: stays_rules stays_reap split: sum.splits)

lemma stays_prepare:
  "stays plain (open_pty k)" "stays plain (build_request k c cg)" "stays plain (confirm_exec k fd)"
  "stays plain (request_spawn k from_raw sock req m sl)"
  unfolding open_pty_def build_request_def confirm_exec_def request_spawn_def call_num_def Let_def
  by (auto intro!: stays_rules split: sum.splits option.splits list.splits)

lemma stays_execute:
  assumes p: "\<And>c. plain c \<Longrightarrow> N c" and sel: "\<And>fds. N (Fd (SelectReadable fds))"
  shows "stays N (execute k from_raw sock c n cg)"
  unfolding execute_def supervise_def collect_output_def call_num_def Let_def
  by (auto intro!: stays_rules stays_close_all stays_collect_loop sel p split: option.splits
      intro: stays_mono [OF stays_reads(1) p] stays_mono [OF stays_reads(2) p] stays_mono [OF stays_conclude p]
        stays_mono [OF stays_prepare(1) p] stays_mono [OF stays_prepare(2) p] stays_mono [OF stays_prepare(3) p]
        stays_mono [OF stays_prepare(4) p])

lemma emits_run_removes:
  "emits (run k from_raw sock c n) (\<lambda>_. create_failed) (\<lambda>r es. r \<noteq> None \<longrightarrow> create_failed es)"
  unfolding run_def
proof (rule emits_bnd, rule emits_weaken [OF emits_cgroup_create], assumption)
  fix p es
  assume c: "create_succeeded c p es"
  have drop: "emits (drop_guard k p) (\<lambda>_ _. False) (\<lambda>_ es''. create_failed (es @ es' @ es''))"
    if "only no_mkdir es'" for es'
  proof (rule emits_weaken [OF emits_drop_guard [where E = "\<lambda>_ _. False"]])
    fix x :: unit and es''
    assume "\<exists>n \<le> 500. \<exists>b. (\<not> b \<longrightarrow> n = 500) \<and> calls_of es'' = drop_calls p n b"
    then obtain m b where "m \<le> 500" "calls_of es'' = drop_calls p m b" by blast
    moreover have "q = p" if "Fs (CreateDir q 0x1FF) \<in> set (calls_of (es @ es'))" for q
    proof -
      have "Fs (CreateDir q 0x1FF) \<notin> set (calls_of es')"
        using \<open>only no_mkdir es'\<close> by (fastforce simp: only_def no_mkdir_def)
      with that c show ?thesis
        by (auto simp: create_succeeded_def create_calls_def limit_calls_def Let_def simp del: set_map)
    qed
    ultimately show "create_failed (es @ es' @ es'')"
      by (intro create_failedI [of m _ "calls_of (es @ es')" p b]) simp_all
  qed simp
  show "emits (cleanup (execute k from_raw sock c n p) (drop_guard k p))
      (\<lambda>_ es'. create_failed (es @ es')) (\<lambda>r es'. r \<noteq> None \<longrightarrow> create_failed (es @ es'))"
    by (rule emits_cleanup, rule emits_weaken [OF stays_execute [where N = no_mkdir, unfolded stays_def]])
      (auto intro: drop plain_no_mkdir split: option.splits)
qed

subsection \<open>The time limit\<close>

definition kill_call :: "cgroup_guard \<Rightarrow> call" where
  "kill_call cg = Fs (WriteExisting (path_join cg ''cgroup.kill'') ''1'')"

text \<open>A report says that the time ran out exactly when the timer expired, and then the cgroup was killed.\<close>

definition ttl_ok :: "cgroup_guard \<Rightarrow> execution_report \<Rightarrow> event list \<Rightarrow> bool" where
  "ttl_ok cg rep es \<longleftrightarrow>
     (reason rep = TimedOut \<longleftrightarrow> \<not> unexpired es) \<and>
     (reason rep = TimedOut \<longrightarrow> (\<exists>pre a post. es = pre @ (kill_call cg, Inr a) # post \<and> \<not> unexpired pre))"

definition run_ok :: "nat \<Rightarrow> cgroup_guard \<Rightarrow> execution_report option \<Rightarrow> event list \<Rightarrow> bool" where
  "run_ok n cg x es \<longleftrightarrow> (case x of None \<Rightarrow> n \<le> length (filter ready es) | Some rep \<Rightarrow> ttl_ok cg rep es)"

lemma ttl_ok_around:
  assumes "ttl_ok cg rep es" and "unexpired pre" and "unexpired post"
  shows "ttl_ok cg rep (pre @ es @ post)"
proof -
  have "\<exists>pre' a post'. pre @ es @ post = pre' @ (kill_call cg, Inr a) # post' \<and> \<not> unexpired pre'"
    if r: "reason rep = TimedOut"
  proof -
    from assms(1) r obtain p a q where "es = p @ (kill_call cg, Inr a) # q" "\<not> unexpired p"
      unfolding ttl_ok_def by blast
    then show ?thesis by (intro exI [of _ "pre @ p"] exI [of _ a] exI [of _ "q @ post"]) simp
  qed
  with assms show ?thesis by (auto simp: ttl_ok_def)
qed

lemma run_ok_around: "run_ok n cg x es \<Longrightarrow> unexpired pre \<Longrightarrow> unexpired post \<Longrightarrow> run_ok n cg x (pre @ es @ post)"
  by (auto simp: run_ok_def intro: ttl_ok_around split: option.splits)

lemmas run_ok_before = run_ok_around [where post = "[]", simplified]

lemma emits_gives:
  assumes "emits m E Q" and "gives m P"
  shows "emits m E (\<lambda>x es. Q x es \<and> P x)"
  unfolding emits_def
proof
  fix s
  obtain es where "trace (snd (m s)) = trace s @ es" "case fst (m s) of Inl e \<Rightarrow> E e es | Inr x \<Rightarrow> Q x es"
    using assms(1) by (auto simp: emits_def)
  with assms(2) show "\<exists>es. trace (snd (m s)) = trace s @ es \<and>
      (case fst (m s) of Inl e \<Rightarrow> E e es | Inr x \<Rightarrow> Q x es \<and> P x)"
    by (intro exI [of _ es]) (cases "m s"; auto simp: gives_def split: sum.splits)
qed

lemma emits_conclude:
  "emits (conclude k cg pidfd pid to) (\<lambda>_. unexpired)
     (\<lambda>x es. unexpired es \<and> (if to then snd x = TimedOut \<and> (\<exists>a post. es = (kill_call cg, Inr a) # post) else snd x \<noteq> TimedOut))"
proof (cases to)
  case True
  show ?thesis
    unfolding conclude_def kill_all_def guard_write_def wait_pidfd_def
    using True by (auto intro!: emits_rules simp: kill_call_def expired_def split: sum.splits)
next
  case False
  have "snd (decode_status st) \<noteq> TimedOut" for st by (simp add: decode_status_def Let_def)
  then have "gives (reap_child k pid cg) (\<lambda>x. snd x \<noteq> TimedOut)"
    by (intro gives_mono [OF gives_reap]) auto
  from emits_gives [OF stays_reap [unfolded stays_def] this] False show ?thesis
    by (simp add: conclude_def) (erule emits_weaken; simp)
qed

lemma stays_report: "stays plain (call_num k (Env InstantElapsed))"
  unfolding call_num_def by (auto intro!: stays_rules)

lemma emits_supervise:
  "emits (supervise k c n cg sr master) (\<lambda>_ _. True) (run_ok n cg)"
  unfolding supervise_def
proof (rule emits_bnd, rule emits_weaken [OF emits_collect_output], simp)
  fix x :: "(u8 list \<times> u8 list \<times> bool) option" and es
  assume x: "case x of None \<Rightarrow> n \<le> length (filter ready es) | Some (out, err, to) \<Rightarrow> to \<longleftrightarrow> \<not> unexpired es"
  show "emits (case x of
       None \<Rightarrow> ret None
     | Some (out, err, timed_out) \<Rightarrow>
         bnd (call_num k (Env InstantElapsed)) (\<lambda>wall.
         bnd (conclude k cg (sr_pidfd sr) (sr_child_pid sr) timed_out) (\<lambda>(exit_code, termination_reason).
         bnd (peak_memory_bytes k cg) (\<lambda>peak.
         bnd (cpu_time_us k cg) (\<lambda>cpu.
         ret (Some \<lparr>exit_status = exit_code, reason = termination_reason, stdout_bytes = out,
           stderr_bytes = err, wall_time = wall, rep_peak_memory_bytes = peak, rep_cpu_time_us = cpu,
           seccomp_violation = (case termination_reason of SeccompViolation v \<Rightarrow> Some v | _ \<Rightarrow> None)\<rparr>))))))
     (\<lambda>_ _. True) (\<lambda>y es'. run_ok n cg y (es @ es'))"
  proof (cases x)
    case None
    with x show ?thesis by (simp add: emits_ret run_ok_def)
  next
    case (Some y)
    obtain out err to where y: "y = (out, err, to)" by (cases y)
    show ?thesis
      unfolding Some y option.case prod.case
    proof (rule emits_plain_bnd [OF stays_report], simp, rule emits_bnd, rule emits_weaken [OF emits_conclude], simp)
      fix wall and e1 :: "event list" and z :: "int \<times> termination_reason" and e2
      assume p: "only plain e1" and z: "unexpired e2 \<and>
        (if to then snd z = TimedOut \<and> (\<exists>a post. e2 = (kill_call cg, Inr a) # post) else snd z \<noteq> TimedOut)"
      obtain code rsn where [simp]: "z = (code, rsn)" by (cases z)
      let ?rep = "\<lambda>peak cpu. \<lparr>exit_status = code, reason = rsn, stdout_bytes = out,
           stderr_bytes = err, wall_time = wall, rep_peak_memory_bytes = peak, rep_cpu_time_us = cpu,
           seccomp_violation = (case rsn of SeccompViolation v \<Rightarrow> Some v | _ \<Rightarrow> None)\<rparr>"
      have "ttl_ok cg (?rep peak cpu) (es @ e1 @ e2 @ e3)" if "only plain e3" for peak cpu e3
        using x Some y p z that
        by (auto simp: ttl_ok_def intro!: exI [of _ "es @ e1"])
      then show "emits (case z of (exit_code, termination_reason) \<Rightarrow>
           bnd (peak_memory_bytes k cg) (\<lambda>peak. bnd (cpu_time_us k cg) (\<lambda>cpu.
           ret (Some \<lparr>exit_status = exit_code, reason = termination_reason, stdout_bytes = out,
             stderr_bytes = err, wall_time = wall, rep_peak_memory_bytes = peak, rep_cpu_time_us = cpu,
             seccomp_violation = (case termination_reason of SeccompViolation v \<Rightarrow> Some v | _ \<Rightarrow> None)\<rparr>))))
         (\<lambda>_ _. True) (\<lambda>y es'. run_ok n cg y (es @ e1 @ e2 @ es'))"
        by (auto intro!: emits_plain_bnd stays_reads emits_ret simp: run_ok_def)
    qed
  qed
qed

lemma emits_cleanup_ok:
  fixes m :: "('w, sandbox_error, execution_report option) io"
  assumes m: "emits m (\<lambda>_ _. True) (run_ok n cg)" and d: "emits d (\<lambda>_ _. False) (\<lambda>_. unexpired)"
  shows "emits (cleanup m d) (\<lambda>_ _. True) (run_ok n cg)"
proof (rule emits_cleanup, rule emits_weaken [OF m])
  show "emits d (\<lambda>_ _. False) (\<lambda>_ _. True)" by (rule emits_weaken [OF d]) simp_all
next
  fix x es
  assume x: "run_ok n cg x es"
  have "emits d (\<lambda>_ _. False) (\<lambda>_ es'. run_ok n cg x (es @ es'))"
    by (rule emits_weaken [OF d]) (use run_ok_around [OF x, of "[]"] in simp_all)
  with x show "case x of None \<Rightarrow> run_ok n cg None es | Some y \<Rightarrow> emits d (\<lambda>_ _. False) (\<lambda>_ es'. run_ok n cg (Some y) (es @ es'))"
    by (cases x) simp_all
qed

lemma emits_execute: "emits (execute k from_raw sock c n cg) (\<lambda>_ _. True) (run_ok n cg)"
proof -
  have last: "emits (cleanup (supervise k c n cg sr master) (close_all k fds)) (\<lambda>_ _. True) (\<lambda>x es'. run_ok n cg x (es @ es'))"
    if "unexpired es" for sr master fds es
    by (rule emits_weaken [OF emits_cleanup_ok [OF emits_supervise]], rule emits_weaken [OF emits_close_all [where E = "\<lambda>_ _. False"]])
      (use that in \<open>auto intro: closes_unexpired run_ok_before\<close>)
  have spawned: "stays plain (or_close k fds (bnd (build_request k c cg) (\<lambda>req. request_spawn k from_raw sock req m sl)))" for fds m sl
    by (auto intro!: stays_rules stays_prepare)
  have confirmed: "stays plain (or_close k fds (confirm_exec k fd))" for fds fd
    by (auto intro!: stays_rules stays_prepare)
  show ?thesis
    unfolding execute_def Let_def
    by (rule emits_plain_bnd, rule stays_prepare, simp, rule emits_plain_bnd, rule spawned, simp,
        rule emits_plain_bnd, rule stays_wrap, simp, rule emits_plain_bnd, rule stays_simple, simp, simp,
        rule emits_plain_bnd, rule confirmed, simp, rule emits_plain_bnd, rule stays_simple, simp, simp,
        simp only: append_assoc [symmetric], rule last) simp
qed

text \<open>A run: the creation of the cgroup \<open>cg\<close>, then the execution, then the removal.\<close>

definition ran :: "nat \<Rightarrow> sandbox_config \<Rightarrow> execution_report option \<Rightarrow> event list \<Rightarrow> bool" where
  "ran n c x es \<longleftrightarrow> (\<exists>cg made rest. es = made @ rest \<and> create_succeeded c cg made \<and> run_ok n cg x rest)"

lemma emits_drop_unexpired: "emits (drop_guard k cg) (\<lambda>_ _. False) (\<lambda>_. unexpired)"
proof (rule emits_weaken [OF emits_drop_guard [where E = "\<lambda>_ _. False"]])
  fix x :: unit and es
  assume "\<exists>n \<le> 500. \<exists>b. (\<not> b \<longrightarrow> n = 500) \<and> calls_of es = drop_calls cg n b"
  then obtain n b where c: "calls_of es = drop_calls cg n b" by blast
  have "\<not> expired ev" if "ev \<in> set es" for ev
  proof -
    from that have "fst ev \<in> set (calls_of es)" by simp
    with c show ?thesis by (auto simp: drop_calls_def expired_def split: if_splits)
  qed
  then show "unexpired es" by (simp add: unexpired_def)
qed simp

lemma emits_run_ran: "emits (run k from_raw sock c n) (\<lambda>_ _. True) (ran n c)"
  unfolding run_def
proof (rule emits_bnd, rule emits_weaken [OF emits_cgroup_create], simp)
  fix cg es
  assume "create_succeeded c cg es"
  then show "emits (cleanup (execute k from_raw sock c n cg) (drop_guard k cg)) (\<lambda>_ _. True) (\<lambda>x es'. ran n c x (es @ es'))"
    by (intro emits_weaken [OF emits_cleanup_ok [OF emits_execute emits_drop_unexpired]]) (auto simp: ran_def)
qed

subsection \<open>Fuel\<close>

lemma extends_cleanup:
  assumes "extends m m'" shows "extends (cleanup m d) (cleanup m' d)"
  unfolding extends_def
proof (intro allI impI)
  fix s
  assume r: "fst (cleanup m d s) \<noteq> Inr None"
  have "fst (m s) \<noteq> Inr None"
  proof
    assume "fst (m s) = Inr None"
    then have "fst (cleanup m d s) = Inr None" by (cases "m s") (simp add: cleanup_def bnd_def attempt_def)
    with r show False by simp
  qed
  with assms show "cleanup m' d s = cleanup m d s" by (simp add: extends_def cleanup_def bnd_def attempt_def)
qed

lemma extends_run: "extends (run k from_raw sock c n) (run k from_raw sock c (n + d))"
  unfolding run_def execute_def supervise_def Let_def
  by (intro extends_bnd extends_cleanup extends_bnd_first [OF extends_collect]) simp

subsection \<open>Descriptors of a run\<close>

text \<open>
  Before the spawn has returned, a descriptor can be a bare number that nothing closes: the slave of a
  terminal whose window size cannot be set, and what a message brought that is no good response. The
  clock is read for the first time right after the spawn.
\<close>

fun leaves_bare :: "event \<Rightarrow> bool" where
  "leaves_bare (Pty (SetWinsize _ _ _ _ _), Inl _) \<longleftrightarrow> True"
| "leaves_bare (Sock (RecvMsg _ _ n), Inr a) \<longleftrightarrow> take n (ans_fds a) \<noteq> []"
| "leaves_bare _ \<longleftrightarrow> False"

definition spawned_child :: "event list \<Rightarrow> bool" where
  "spawned_child es \<longleftrightarrow> Env InstantNow \<in> set (calls_of es)"

definition quiet :: "event list \<Rightarrow> bool" where
  "quiet es \<longleftrightarrow> (\<forall>ev \<in> set es. \<not> leaves_bare ev)"

text \<open>The events gave the process the descriptors \<open>A\<close> and took the descriptors \<open>B\<close>.\<close>

definition moved :: "fd list \<Rightarrow> fd list \<Rightarrow> event list \<Rightarrow> bool" where
  "moved A B es \<longleftrightarrow> opened_fds es = mset A \<and> closed_fds es = mset B"

lemma moved_append: "moved A B es \<Longrightarrow> moved A' B' es' \<Longrightarrow> moved (A @ A') (B @ B') (es @ es')"
  by (simp add: moved_def)

lemma moved_neutral: "only neutral es \<Longrightarrow> moved [] [] es"
  by (simp add: moved_def only_neutral)

lemma moved_closes: "calls_of es = map (\<lambda>f. Fd (CloseFd f)) fds \<Longrightarrow> moved [] fds es"
  by (simp add: moved_def closes_events)

lemma moved_balanced: "moved A B es \<Longrightarrow> mset A = mset B \<Longrightarrow> balanced es"
  by (simp add: moved_def balanced_def)

lemma stays_reads_neutral:
  "stays neutral (peak_memory_bytes k cg)" "stays neutral (cpu_time_us k cg)" "stays neutral (oom_kill_count k cg)"
  unfolding peak_memory_bytes_def cpu_time_us_def oom_kill_count_def read_u64_file_def read_text_def
  by (auto intro!: stays_rules)

lemma stays_poll_neutral: "stays neutral (poll_status k p n)"
  by (induction n) (auto intro!: stays_rules simp only: poll_status.simps neutral.simps split: sum.splits)

lemma stays_conclude_neutral: "stays neutral (conclude k cg pidfd pid to)"
  unfolding conclude_def kill_all_def guard_write_def write_cgroup_file_def wait_pidfd_def reap_child_def Let_def
  by (auto intro!: stays_rules stays_poll_neutral stays_reads_neutral split: sum.splits option.splits)

lemma stays_on_error [stays_rules]: "stays N m \<Longrightarrow> stays N d \<Longrightarrow> stays N (on_error m d)"
  unfolding stays_def
  by (rule emits_on_error, erule emits_weaken) (auto elim!: emits_weaken)

lemma stays_cgroup:
  assumes "\<And>f. N (Fs f)" "\<And>n. N (Env (SleepMs n))" "N (Env SystemTimeNow)" "N (Env ProcessId)"
  shows "stays N (drop_guard k g)" and "stays N (cgroup_create k c)"
proof -
  have wait: "stays N (wait_empty k g n)" for g n
    by (induction n)
      (auto intro!: stays_rules assms simp only: wait_empty.simps current_pids_def read_u64_file_def read_text_def)
  show "stays N (drop_guard k g)" for g
    unfolding drop_guard_def by (intro stays_rules wait assms)
  then show "stays N (cgroup_create k c)"
    unfolding cgroup_create_def check_delegation_def guard_write_def write_cgroup_file_def unique_id_def call_num_def Let_def
    by (auto intro!: stays_rules assms split: sum.splits)
qed

lemma stays_cgroup_neutral: "stays neutral (drop_guard k g)" "stays neutral (cgroup_create k c)"
  by (rule stays_cgroup; simp)+

lemma emits_neutral: "stays neutral m \<Longrightarrow> emits m (\<lambda>_. moved [] []) (\<lambda>_. moved [] [])"
  unfolding stays_def by (erule emits_weaken) (simp_all add: moved_neutral)

lemma spawned_simps [simp]:
  "\<not> spawned_child []" "spawned_child (ev # es) \<longleftrightarrow> fst ev = Env InstantNow \<or> spawned_child es"
  "spawned_child (es @ es') \<longleftrightarrow> spawned_child es \<or> spawned_child es'"
  "quiet []" "quiet (ev # es) \<longleftrightarrow> \<not> leaves_bare ev \<and> quiet es" "quiet (es @ es') \<longleftrightarrow> quiet es \<and> quiet es'"
  by (auto simp: spawned_child_def quiet_def)

lemma closes_unspawned:
  assumes "calls_of es = map (\<lambda>f. Fd (CloseFd f)) fds" shows "\<not> spawned_child es"
  unfolding spawned_child_def assms by auto

lemma emits_unspawned:
  assumes "stays (\<lambda>c. neutral c \<and> c \<noteq> Env InstantNow) m"
  shows "emits m (\<lambda>_ es. moved [] [] es \<and> \<not> spawned_child es) (\<lambda>_ es. moved [] [] es \<and> \<not> spawned_child es)"
  using assms unfolding stays_def
  by (rule emits_weaken) (auto simp: only_def spawned_child_def intro!: moved_neutral)

lemma emits_close_moved: "emits (close_all k fds) (\<lambda>_ _. False) (\<lambda>_. moved [] fds)"
  by (rule emits_weaken [OF emits_close_all [where E = "\<lambda>_ _. False"]]) (simp_all add: moved_closes)

lemma emits_pty_moved:
  "emits (open_pty k) (\<lambda>_ es. \<not> spawned_child es \<and> (quiet es \<longrightarrow> balanced es))
     (\<lambda>p es. moved [pty_master p, pty_slave p] [] es \<and> \<not> spawned_child es)"
  unfolding open_pty_def Let_def
  by (intro emits_rules allI impI)
    (auto simp: moved_def balanced_def dest: closes_events closes_unspawned)

lemma emits_build_request_moved:
  "emits (build_request k c cg) (\<lambda>_ es. moved [] [] es \<and> \<not> spawned_child es) (\<lambda>_ es. moved [] [] es \<and> \<not> spawned_child es)"
  by (rule emits_unspawned) (auto simp: build_request_def call_num_def intro!: stays_rules)

lemma emits_request_moved:
  "emits (request_spawn k from_raw sock req m sl)
     (\<lambda>_ es. \<not> spawned_child es \<and> (quiet es \<longrightarrow> moved [] [] es))
     (\<lambda>sr. moved [sr_pidfd sr, sr_err_pipe_rd sr, sr_stderr_pipe_rd sr] [])"
  unfolding request_spawn_def Let_def
  by (intro emits_rules) (auto simp: moved_def emits_def split: option.splits sum.splits list.splits)

lemma emits_spawn_moved:
  "emits (or_close k fds (bnd (build_request k c cg) (\<lambda>req. request_spawn k from_raw sock req m sl)))
     (\<lambda>_ es. \<not> spawned_child es \<and> (quiet es \<longrightarrow> moved [] fds es))
     (\<lambda>sr. moved [sr_pidfd sr, sr_err_pipe_rd sr, sr_stderr_pipe_rd sr] [])"
  (is "emits _ (\<lambda>_. ?E) _")
proof (rule emits_or_close, rule emits_bnd, rule emits_weaken [OF emits_build_request_moved])
  have closed: "?E (es @ es')" if "\<not> spawned_child es" "quiet es \<longrightarrow> moved [] [] es"
    "calls_of es' = map (\<lambda>f. Fd (CloseFd f)) fds" for es es'
    using that moved_append [of "[]" "[]" es "[]" fds es'] closes_unspawned [of es' fds] by (auto dest: moved_closes)
  show "\<forall>es'. calls_of es' = map (\<lambda>f. Fd (CloseFd f)) fds \<longrightarrow> ?E (es @ es')"
    if "moved [] [] es \<and> \<not> spawned_child es" for es
    using that by (intro allI impI closed) simp_all
  fix req es
  assume es: "moved [] [] es \<and> \<not> spawned_child es"
  show "emits (request_spawn k from_raw sock req m sl)
     (\<lambda>_ es'. \<forall>es''. calls_of es'' = map (\<lambda>f. Fd (CloseFd f)) fds \<longrightarrow> ?E ((es @ es') @ es''))
     (\<lambda>sr es'. moved [sr_pidfd sr, sr_err_pipe_rd sr, sr_stderr_pipe_rd sr] [] (es @ es'))"
  proof (rule emits_weaken [OF emits_request_moved])
    fix es' assume "\<not> spawned_child es' \<and> (quiet es' \<longrightarrow> moved [] [] es')"
    then have "\<not> spawned_child (es @ es')" "quiet (es @ es') \<longrightarrow> moved [] [] (es @ es')"
      using es moved_append [of "[]" "[]" es "[]" "[]" es'] by auto
    then show "\<forall>es''. calls_of es'' = map (\<lambda>f. Fd (CloseFd f)) fds \<longrightarrow> ?E ((es @ es') @ es'')" using closed by blast
  qed (use es in \<open>auto dest: moved_append\<close>)
qed

lemma emits_confirm_moved:
  "emits (or_close k fds (confirm_exec k fd)) (\<lambda>_. moved [] fds) (\<lambda>_. moved [] [])"
proof (rule emits_or_close, rule emits_weaken)
  show "emits (confirm_exec k fd) (\<lambda>_. moved [] []) (\<lambda>_. moved [] [])"
    by (rule emits_neutral) (auto simp: confirm_exec_def intro!: stays_rules split: sum.splits)
  show "moved [] [] es \<Longrightarrow> \<forall>es'. calls_of es' = map (\<lambda>f. Fd (CloseFd f)) fds \<longrightarrow> moved [] fds (es @ es')" for es
    using moved_append [of "[]" "[]" es "[]" fds] by (auto dest: moved_closes)
qed

lemma emits_async_moved:
  "emits (or_close k fds (call_io k (Fd (AsyncFdNew f)) IpcError)) (\<lambda>_. moved [] fds) (\<lambda>_. moved [] [])"
  by (intro emits_rules) (auto simp: moved_def dest: closes_events)

lemma emits_loop_moved: "emits (collect_loop k m r n b) (\<lambda>_ _. False) (\<lambda>_. moved [] [])"
  by (rule emits_weaken [OF emits_conj [OF emits_collect_timed emits_neutral [OF stays_collect_loop]]]) simp_all

lemma moved_then: "moved [] [] es \<Longrightarrow> moved A B es' \<Longrightarrow> moved A B (es @ es')"
  using moved_append [of "[]" "[]"] by simp

lemma moved_swap: "moved A [x, y] es \<Longrightarrow> moved A [y, x] es"
  by (simp add: moved_def add_mset_commute)

lemma emits_collect_moved:
  "emits (collect_output k m r t n) (\<lambda>_. moved [] [r, m]) (\<lambda>x es. x \<noteq> None \<longrightarrow> moved [] [r, m] es)"
proof -
  have last: "emits (case x of (b, e) \<Rightarrow> if e = OutOfFuel then ret None
        else bnd (close_all k [r, m]) (\<lambda>_. ret (Some (out_buf b, err_buf b, e = TimerExpired)))) (\<lambda>_ es'. moved [] [r, m] (es @ es'))
      (\<lambda>y es'. y \<noteq> None \<longrightarrow> moved [] [r, m] (es @ es'))" if "moved [] [] es" for es and x :: "buffers \<times> loop_end"
    using that by (cases x) (auto intro!: emits_if emits_ret emits_bnd emits_weaken [OF emits_close_moved]
        simp: moved_then [OF that])
  show ?thesis
    unfolding collect_output_def
    by (rule emits_bnd, rule emits_weaken [OF emits_async_moved], rule moved_swap, assumption,
        rule emits_bnd, rule emits_weaken [OF emits_async_moved], rule moved_then, assumption, assumption,
        rule emits_bnd, rule emits_call_ignore, rule emits_bnd, rule emits_weaken [OF emits_loop_moved], simp,
        simp only: append_assoc [symmetric], rule last)
      (auto intro!: moved_then simp: moved_def)
qed

text \<open>After the spawn: the pidfd and the error pipe are still to be closed, by the caller's clean-up.\<close>

lemma emits_supervise_moved:
  "emits (supervise k c n cg sr master) (\<lambda>_. moved [] [sr_stderr_pipe_rd sr, master])
     (\<lambda>x es. x \<noteq> None \<longrightarrow> moved [] [sr_stderr_pipe_rd sr, master] es)"
  unfolding supervise_def
proof (rule emits_bnd, rule emits_weaken [OF emits_collect_moved], simp)
  fix x :: "(u8 list \<times> u8 list \<times> bool) option" and es
  assume x: "x \<noteq> None \<longrightarrow> moved [] [sr_stderr_pipe_rd sr, master] es"
  let ?rest = "\<lambda>out err to. bnd (call_num k (Env InstantElapsed)) (\<lambda>wall.
         bnd (conclude k cg (sr_pidfd sr) (sr_child_pid sr) to) (\<lambda>(exit_code, termination_reason).
         bnd (peak_memory_bytes k cg) (\<lambda>peak.
         bnd (cpu_time_us k cg) (\<lambda>cpu.
         ret (Some \<lparr>exit_status = exit_code, reason = termination_reason, stdout_bytes = out,
           stderr_bytes = err, wall_time = wall, rep_peak_memory_bytes = peak, rep_cpu_time_us = cpu,
           seccomp_violation = (case termination_reason of SeccompViolation v \<Rightarrow> Some v | _ \<Rightarrow> None)\<rparr>)))))"
  have rest: "stays neutral (?rest out err to)" for out err to
    by (auto intro!: stays_rules stays_conclude_neutral stays_reads_neutral simp: call_num_def split: prod.splits)
  show "emits (case x of None \<Rightarrow> ret None | Some (out, err, to) \<Rightarrow> ?rest out err to)
     (\<lambda>_ es'. moved [] [sr_stderr_pipe_rd sr, master] (es @ es'))
     (\<lambda>y es'. y \<noteq> None \<longrightarrow> moved [] [sr_stderr_pipe_rd sr, master] (es @ es'))"
  proof (cases x)
    case (Some y)
    obtain out err to where y: "y = (out, err, to)" by (cases y)
    have "moved [] [sr_stderr_pipe_rd sr, master] es" using x Some by simp
    then show ?thesis
      unfolding Some y option.case prod.case
      by (intro emits_weaken [OF emits_neutral [OF rest]]) (auto dest: moved_append)
  qed (simp add: emits_ret)
qed

lemma emits_cleanup_moved:
  fixes m :: "('w, sandbox_error, execution_report option) io"
  assumes m: "emits m (\<lambda>_. moved [] B) (\<lambda>x es. x \<noteq> None \<longrightarrow> moved [] B es)"
  shows "emits (cleanup m (close_all k fds)) (\<lambda>_. moved [] (B @ fds))
    (\<lambda>x es. x \<noteq> None \<longrightarrow> moved [] (B @ fds) es)"
proof (rule emits_cleanup, rule emits_weaken [OF m])
  fix es :: "event list"
  assume "moved [] B es"
  then show "emits (close_all k fds) (\<lambda>_ _. False) (\<lambda>_ es'. moved [] (B @ fds) (es @ es'))"
    by (intro emits_weaken [OF emits_close_moved]) (auto dest: moved_append)
next
  fix x :: "execution_report option" and es
  assume "x \<noteq> None \<longrightarrow> moved [] B es"
  then show "case x of None \<Rightarrow> None \<noteq> None \<longrightarrow> moved [] (B @ fds) es
     | Some y \<Rightarrow> emits (close_all k fds) (\<lambda>_ _. False) (\<lambda>_ es'. Some y \<noteq> None \<longrightarrow> moved [] (B @ fds) (es @ es'))"
    by (cases x) (auto intro!: emits_weaken [OF emits_close_moved] dest: moved_append)
qed

lemma emits_execute_moved:
  "emits (execute k from_raw sock c n cg) (\<lambda>_ es. spawned_child es \<or> quiet es \<longrightarrow> balanced es)
     (\<lambda>x es. x \<noteq> None \<longrightarrow> balanced es)"
  unfolding execute_def Let_def
proof (rule emits_bnd, rule emits_weaken [OF emits_pty_moved], simp)
  fix p :: pty_pair and e1 :: "event list"
  let ?m = "pty_master p" and ?s = "pty_slave p"
  assume e1: "moved [?m, ?s] [] e1 \<and> \<not> spawned_child e1"
  show "emits (bnd (or_close k [?m, ?s] (bnd (build_request k c cg) (\<lambda>req. request_spawn k from_raw sock req ?m ?s))) (\<lambda>sr.
     bnd (close_all k [?s]) (\<lambda>_.
     bnd (call_ignore k (Env InstantNow)) (\<lambda>_.
     bnd (or_close k [sr_pidfd sr, sr_err_pipe_rd sr, sr_stderr_pipe_rd sr, ?m] (confirm_exec k (sr_err_pipe_rd sr))) (\<lambda>_.
     bnd (call_ignore k (Fd (SetNonblock (sr_stderr_pipe_rd sr)))) (\<lambda>_.
     cleanup (supervise k c n cg sr ?m) (close_all k [sr_pidfd sr, sr_err_pipe_rd sr])))))))
    (\<lambda>_ es'. spawned_child (e1 @ es') \<or> quiet (e1 @ es') \<longrightarrow> balanced (e1 @ es')) (\<lambda>x es'. x \<noteq> None \<longrightarrow> balanced (e1 @ es'))"
  proof (rule emits_bnd, rule emits_weaken [OF emits_spawn_moved])
    show "\<not> spawned_child es \<and> (quiet es \<longrightarrow> moved [] [?m, ?s] es) \<Longrightarrow>
        spawned_child (e1 @ es) \<or> quiet (e1 @ es) \<longrightarrow> balanced (e1 @ es)" for es
      using e1 by (auto simp: moved_def balanced_def)
  next
    fix sr :: spawn_response and e2 :: "event list"
    let ?p = "sr_pidfd sr" and ?e = "sr_err_pipe_rd sr" and ?r = "sr_stderr_pipe_rd sr"
    assume e2: "moved [?p, ?e, ?r] [] e2"
    have last: "emits (cleanup (supervise k c n cg sr ?m) (close_all k [?p, ?e]))
        (\<lambda>_ es'. balanced (es @ es')) (\<lambda>x es'. x \<noteq> None \<longrightarrow> balanced (es @ es'))"
      if "moved [?m, ?s, ?p, ?e, ?r] [?s] es" for es
      using that by (intro emits_weaken [OF emits_cleanup_moved [OF emits_supervise_moved]])
        (auto simp: moved_def balanced_def)
    have "emits (bnd (close_all k [?s]) (\<lambda>_.
       bnd (call_ignore k (Env InstantNow)) (\<lambda>_.
       bnd (or_close k [?p, ?e, ?r, ?m] (confirm_exec k ?e)) (\<lambda>_.
       bnd (call_ignore k (Fd (SetNonblock ?r))) (\<lambda>_.
       cleanup (supervise k c n cg sr ?m) (close_all k [?p, ?e]))))))
      (\<lambda>_ es'. balanced (e1 @ e2 @ es')) (\<lambda>x es'. x \<noteq> None \<longrightarrow> balanced (e1 @ e2 @ es'))"
      by (rule emits_bnd, rule emits_weaken [OF emits_close_moved], simp, rule emits_bnd, rule emits_call_ignore,
          rule emits_bnd, rule emits_weaken [OF emits_confirm_moved], use e1 e2 in \<open>simp add: moved_def balanced_def\<close>,
          rule emits_bnd, rule emits_call_ignore, simp only: append_assoc [symmetric], rule last)
        (use e1 e2 in \<open>simp add: moved_def\<close>)
    then show "emits (bnd (close_all k [?s]) (\<lambda>_.
       bnd (call_ignore k (Env InstantNow)) (\<lambda>_.
       bnd (or_close k [?p, ?e, ?r, ?m] (confirm_exec k ?e)) (\<lambda>_.
       bnd (call_ignore k (Fd (SetNonblock ?r))) (\<lambda>_.
       cleanup (supervise k c n cg sr ?m) (close_all k [?p, ?e]))))))
      (\<lambda>_ es'. spawned_child (e1 @ e2 @ es') \<or> quiet (e1 @ e2 @ es') \<longrightarrow> balanced (e1 @ e2 @ es'))
      (\<lambda>x es'. x \<noteq> None \<longrightarrow> balanced (e1 @ e2 @ es'))"
      by (rule emits_weaken) simp_all
  qed
qed

lemma emits_run_balanced:
  "emits (run k from_raw sock c n) (\<lambda>_ es. spawned_child es \<or> quiet es \<longrightarrow> balanced es)
     (\<lambda>x es. x \<noteq> None \<longrightarrow> balanced es)"
  unfolding run_def
proof (rule emits_bnd, rule emits_weaken [OF emits_unspawned [OF stays_cgroup(2)]])
  fix cg and es :: "event list"
  assume m: "moved [] [] es \<and> \<not> spawned_child es"
  have drop: "emits (drop_guard k cg) (\<lambda>_ _. False) (\<lambda>_ es. moved [] [] es \<and> \<not> spawned_child es)"
    by (rule emits_weaken [OF emits_conj [OF emits_drop_unexpired emits_unspawned [OF stays_cgroup(1)]]]) simp_all
  show "emits (cleanup (execute k from_raw sock c n cg) (drop_guard k cg))
      (\<lambda>_ es'. spawned_child (es @ es') \<or> quiet (es @ es') \<longrightarrow> balanced (es @ es'))
      (\<lambda>x es'. x \<noteq> None \<longrightarrow> balanced (es @ es'))"
  proof (rule emits_cleanup, rule emits_weaken [OF emits_execute_moved])
    show "emits (drop_guard k cg) (\<lambda>_ _. False)
        (\<lambda>_ es''. spawned_child (es @ es' @ es'') \<or> quiet (es @ es' @ es'') \<longrightarrow> balanced (es @ es' @ es''))"
      if "spawned_child es' \<or> quiet es' \<longrightarrow> balanced es'" for es'
      using m that by (intro emits_weaken [OF drop]) (auto simp: moved_def balanced_def)
    show "x \<noteq> None \<longrightarrow> balanced es' \<Longrightarrow> case x of None \<Rightarrow> None \<noteq> None \<longrightarrow> balanced (es @ es')
        | Some y \<Rightarrow> emits (drop_guard k cg) (\<lambda>_ _. False) (\<lambda>_ es''. Some y \<noteq> None \<longrightarrow> balanced (es @ es' @ es''))" for x es'
      using m by (cases x) (auto intro!: emits_weaken [OF drop] simp: moved_def balanced_def)
  qed
qed (auto simp: moved_def balanced_def)

section \<open>Examples\<close>

text \<open>
  A kernel for a whole run: the child is spawned, its outputs are empty and it exits with 0; every
  select answers \<open>fds\<close> (none of them is the expired timer).
\<close>

fun run_reply :: "fd list \<Rightarrow> call \<Rightarrow> reply" where
  "run_reply fds (Fs (ReadToString p)) =
     Inr (done_ans\<lparr>ans_data := if take 5 p = ''/tmp/'' then bytes_of (dec 0 @ [newline]) else []\<rparr>)"
| "run_reply fds (Pty (PosixOpenpt _)) = Inr (done_ans\<lparr>ans_num := 10\<rparr>)"
| "run_reply fds (Fd (OpenFd _ _ _)) = Inr (done_ans\<lparr>ans_num := 11\<rparr>)"
| "run_reply fds (Sock (ReadExact _ _)) = Inr (done_ans\<lparr>ans_data := len_prefix (encode_ok_response 4242)\<rparr>)"
| "run_reply fds (Sock (RecvMsg _ _ _)) = Inr (done_ans\<lparr>ans_data := encode_ok_response 4242, ans_fds := [20, 21, 22]\<rparr>)"
| "run_reply fds (Fd (SelectReadable _)) = Inr (done_ans\<lparr>ans_fds := fds\<rparr>)"
| "run_reply fds _ = Inr done_ans"

abbreviation example_run :: "fd list \<Rightarrow> nat \<Rightarrow> (sandbox_error + execution_report option) \<times> unit os" where
  "example_run fds n \<equiv> run (scripted (run_reply fds)) id 3 example_config n fresh_os"

lemma example_response:
  "decode_response id (fill_buf (prefix_len (len_prefix (encode_ok_response 4242))) (encode_ok_response 4242)) =
     Some (Inr 4242)"
  by code_simp

lemma example_status: "parse_i32 (trim [CHR ''0'', newline]) = Some 0"
  using parse_i32_dec_nat [of 0] trim_line [of 0] by (simp add: example_dec)

lemma wait_empty_500:
  "wait_empty k g 500 = bnd (current_pids k g) (\<lambda>pids.
     if pids = 0 then ret () else bnd (call_ignore k (Env (SleepMs 10))) (\<lambda>_. wait_empty k g 499))"
  using wait_empty.simps(2) [of k g 499] by simp

lemmas run_code = run_def execute_def supervise_def collect_output_def take_arm_def read_master_def read_stderr_def
  out_arm_def err_arm_def enabled_fds_def first_ready_def conclude_def reap_child_def wait_pidfd_def kill_all_def cleanup_def
  build_request_def build_argv_def build_env_def confirm_exec_def peak_memory_bytes_def cpu_time_us_def oom_kill_count_def
  read_u64_file_def read_text_def open_pty_def or_close_def close_all_def request_spawn_def drop_guard_def current_pids_def
  wait_empty_500 poll_status_100

lemma example_run_exits:
  "fst (example_run [10, 22] 3) = Inr (Some \<lparr>exit_status = 0, reason = Exited 0, stdout_bytes = [], stderr_bytes = [],
     wall_time = 0, rep_peak_memory_bytes = 0, rep_cpu_time_us = 0, seccomp_violation = None\<rparr>)"
  by (simp add: run_code run_defs cgroup_run path_run example_response example_status example_texts cstring_new_def NUL_def
      numeral_3_eq_3 decode_status_def)

lemma example_run_stalls:
  "fst (example_run [] 3) = Inr (Some \<lparr>exit_status = - 1, reason = TimedOut, stdout_bytes = [], stderr_bytes = [],
     wall_time = 0, rep_peak_memory_bytes = 0, rep_cpu_time_us = 0, seccomp_violation = None\<rparr>)"
  by (simp add: run_code run_defs cgroup_run path_run example_response example_texts cstring_new_def NUL_def
      numeral_3_eq_3)

section \<open>Properties\<close>

text \<open>
  C15. Every report is consistent: the exit status and the seccomp field are those of the reason, an exit
  code is a byte, a signal a number below 128, and the reason \<open>CgroupKillFallback\<close> is never given; a
  seccomp violation is always reported with system call number 0.
\<close>

theorem report_consistent:
  assumes "run k from_raw sock c n s = (Inr (Some rep), t)"
  shows "report_ok rep"
  using gives_run [of k from_raw sock c n] assms by (auto simp: gives_def)

theorem report_consistent_witness:
  "\<exists>rep. fst (example_run [10, 22] 3) = Inr (Some rep) \<and> report_ok rep \<and> reason rep = Exited 0"
proof -
  obtain rep where r: "fst (example_run [10, 22] 3) = Inr (Some rep)" "reason rep = Exited 0"
    using example_run_exits by simp
  then have "example_run [10, 22] 3 = (Inr (Some rep), snd (example_run [10, 22] 3))" by (metis prod.collapse)
  from report_consistent [OF this] r show ?thesis by blast
qed

text \<open>
  C4. The time limit is enforced and told: a report says \<open>TimedOut\<close> exactly when the timer expired, and
  then, after it expired, the cgroup that was created for this run was killed.
\<close>

theorem ttl_enforced:
  assumes "run k from_raw sock c n s = (Inr (Some rep), t)"
  shows "\<exists>cg made rest. trace t = trace s @ made @ rest \<and> calls_of made = create_calls c cg \<and>
    (reason rep = TimedOut \<longleftrightarrow> (\<exists>ev \<in> set rest. expired ev)) \<and>
    (reason rep = TimedOut \<longrightarrow>
       (\<exists>pre a post. rest = pre @ (kill_call cg, Inr a) # post \<and> (\<exists>ev \<in> set pre. expired ev)))"
proof -
  from emits_Inr [OF emits_run_ran assms] obtain cg made rest where t: "trace t = trace s @ made @ rest"
    and made: "create_succeeded c cg made" and ok: "ttl_ok cg rep rest"
    by (auto simp: ran_def run_ok_def)
  have "reason rep = TimedOut \<longleftrightarrow> (\<exists>ev \<in> set rest. expired ev)"
    "reason rep = TimedOut \<longrightarrow> (\<exists>pre a post. rest = pre @ (kill_call cg, Inr a) # post \<and> (\<exists>ev \<in> set pre. expired ev))"
    using ok by (simp_all add: ttl_ok_def unexpired_def)
  moreover have "calls_of made = create_calls c cg" using made by (simp add: create_succeeded_def)
  ultimately show ?thesis using t by blast
qed

theorem ttl_enforced_witness:
  "\<exists>cg pre a post. trace (snd (example_run [] 3)) = pre @ (kill_call cg, Inr a) # post"
proof -
  obtain rep where r: "fst (example_run [] 3) = Inr (Some rep)" "reason rep = TimedOut"
    using example_run_stalls by simp
  then have "example_run [] 3 = (Inr (Some rep), snd (example_run [] 3))" by (metis prod.collapse)
  from ttl_enforced [OF this] r(2) obtain cg made pre a post where
    "trace (snd (example_run [] 3)) = (trace fresh_os @ made @ pre) @ (kill_call cg, Inr a) # post"
    unfolding append_assoc by blast
  then show ?thesis by (intro exI)
qed

text \<open>
  C8. A run leaves no cgroup behind: however it ends, an error included, if it made a cgroup directory its
  last calls are those of the removal of that directory.
\<close>

theorem run_removes_cgroup:
  assumes "run k from_raw sock c n s = (r, t)" and "r \<noteq> Inr None"
  shows "\<exists>es. trace t = trace s @ es \<and> (\<forall>p a. (Fs (CreateDir p 0x1FF), Inr a) \<in> set es \<longrightarrow>
    (\<exists>pre m b. m \<le> 500 \<and> calls_of es = pre @ drop_calls p m b))"
proof -
  obtain es where "trace t = trace s @ es" and
    "case r of Inl _ \<Rightarrow> create_failed es | Inr x \<Rightarrow> x \<noteq> None \<longrightarrow> create_failed es"
    by (rule emitsE [OF emits_run_removes assms(1)])
  with assms(2) show ?thesis by (cases r) (auto simp: create_failed_def)
qed

theorem run_removes_cgroup_witness:
  "last (calls_of (trace (snd (example_run [10, 22] 3)))) = Fs (RemoveDir ''/c/sandbox-0'')"
proof -
  have c: "(Fs (CreateDir ''/c/sandbox-0'' 0x1FF), Inr done_ans) \<in> set (trace (snd (example_run [10, 22] 3)))"
    by (simp add: run_code run_defs cgroup_run path_run example_response example_status example_texts cstring_new_def
        NUL_def numeral_3_eq_3 decode_status_def)
  have "trace fresh_os = []" by (simp add: fresh_os_def)
  with run_removes_cgroup [OF prod.collapse [symmetric], of "scripted (run_reply [10, 22])" id 3 example_config 3 fresh_os] c
  obtain pre m b where "calls_of (trace (snd (example_run [10, 22] 3))) = pre @ drop_calls ''/c/sandbox-0'' m b"
    by (auto simp: example_run_exits simp del: set_map)
  then show ?thesis by (simp only: drop_calls_def append_assoc [symmetric] last_snoc)
qed

text \<open>
  C14. The fuel is no limit: a run that ended with \<open>n\<close> rounds of its loop ends the same with more, and
  one that did not end made \<open>n\<close> selects that each found a descriptor ready. So a run ends
  once a select fails or finds the timer expired, at the latest.
\<close>

theorem run_ends:
  assumes "run k from_raw sock c n s = (r, t)"
  shows "if r = Inr None then \<exists>es. trace t = trace s @ es \<and> n \<le> length (filter ready es)
    else \<forall>d. run k from_raw sock c (n + d) s = (r, t)"
proof (cases "r = Inr None")
  case True
  with emits_Inr [OF emits_run_ran, of k from_raw sock c n s None t] assms
  show ?thesis by (auto simp: ran_def run_ok_def)
next
  case False
  with extends_run [of k from_raw sock c n] assms show ?thesis by (simp add: extends_def)
qed

theorem run_ends_witness:
  "fst (example_run [10, 22] 1000) = fst (example_run [10, 22] 3)"
proof -
  have "\<forall>d. example_run [10, 22] (3 + d) = (fst (example_run [10, 22] 3), snd (example_run [10, 22] 3))"
    using run_ends [OF prod.collapse [symmetric], of "scripted (run_reply [10, 22])" id 3 example_config 3 fresh_os]
    by (simp add: example_run_exits)
  from spec [OF this, of 997] show ?thesis by simp
qed

text \<open>
  C18. A run returns its descriptors: when it ends with a report, or with any error after the spawn
  (then it has read the clock), every descriptor it was given by the terminal and by the fork
  server has been closed, exactly once. So it has on an error before the spawn, unless the terminal's window
  size could not be set or a message with descriptors was no good response.
\<close>

theorem run_returns_descriptors:
  assumes "run k from_raw sock c n s = (r, t)" and "r \<noteq> Inr None" and "trace t = trace s @ es"
    and "\<forall>e. r = Inl e \<longrightarrow> Env InstantNow \<in> set (calls_of es) \<or> (\<forall>ev \<in> set es. \<not> leaves_bare ev)"
  shows "opened_fds es = closed_fds es"
proof -
  obtain es' where "trace t = trace s @ es'" and
    "case r of Inl _ \<Rightarrow> spawned_child es' \<or> quiet es' \<longrightarrow> balanced es' | Inr x \<Rightarrow> x \<noteq> None \<longrightarrow> balanced es'"
    by (rule emitsE [OF emits_run_balanced assms(1)])
  with assms(2-4) show ?thesis by (cases r) (auto simp: balanced_def spawned_child_def quiet_def)
qed

text \<open>The example with a poll that cannot take the second descriptor: an error after the spawn.\<close>

abbreviation refused_run :: "(sandbox_error + execution_report option) \<times> unit os" where
  "refused_run \<equiv> run (scripted (\<lambda>c. if c = Fd (AsyncFdNew 22) then Inl (OsError EPERM) else run_reply [] c))
     id 3 example_config 3 fresh_os"

theorem run_returns_descriptors_witness:
  "fst refused_run = Inl (IpcError (OsError EPERM)) \<and> closed_fds (trace (snd refused_run)) = {#10, 11, 20, 21, 22#}"
proof -
  have r: "fst refused_run = Inl (IpcError (OsError EPERM))"
    and o: "opened_fds (trace (snd refused_run)) = {#10, 11, 20, 21, 22#}"
    and i: "Env InstantNow \<in> set (calls_of (trace (snd refused_run)))"
    by (simp_all add: run_code run_defs cgroup_run path_run example_response example_texts cstring_new_def
        NUL_def numeral_3_eq_3)
  have "trace (snd refused_run) = trace fresh_os @ trace (snd refused_run)" by (simp add: fresh_os_def)
  from run_returns_descriptors [OF prod.collapse [symmetric] _ this] r o i show ?thesis by simp
qed

end
