(* ===== verification/BrinkRun.thy ===== *)
theory BrinkRun
  imports Supervisor
begin

text \<open>
  \<^verbatim>\<open>src/bin/run.rs\<close>: the \<open>brink-run\<close> program. The JSON reader of serde is the parameter \<open>parse_job\<close>,
  which finds the fields of a job, its writers are \<open>to_json\<close> and \<open>err_json\<close>; the texts of an \<open>Errno\<close> and an
  \<open>io::Error\<close> are parameters as in the theory \<open>Errors\<close>. \<open>ovf\<close> tells whether the program was built with
  overflow checks, which Cargo's dev profile has and its release profile has not.
\<close>

section \<open>Definitions\<close>

record job =
  jb_argv :: "string list"
  jb_env :: "(string \<times> string) list"
  jb_workspace :: string
  jb_cgroup_parent :: string
  jb_memory_mb :: u64
  jb_cpu_pct :: u64
  jb_timeout_secs :: u64
  jb_pids_max :: u32
  jb_extra_ro_mounts :: "(string \<times> string) list"

definition default_memory_mb :: u64 where "default_memory_mb = 128"
definition default_cpu_pct :: u64 where "default_cpu_pct = 50"
definition default_timeout_secs :: u64 where "default_timeout_secs = 10"
definition default_pids_max :: u32 where "default_pids_max = 64"

text \<open>The fields serde finds; those with a \<open>default\<close> attribute may be missing.\<close>

record job_fields =
  jf_argv :: "string list"
  jf_env :: "(string \<times> string) list option"
  jf_workspace :: string
  jf_cgroup_parent :: string
  jf_memory_mb :: "u64 option"
  jf_cpu_pct :: "u64 option"
  jf_timeout_secs :: "u64 option"
  jf_pids_max :: "u32 option"
  jf_extra_ro_mounts :: "(string \<times> string) list option"

definition or_default :: "'a option \<Rightarrow> 'a \<Rightarrow> 'a" where
  "or_default x d = (case x of None \<Rightarrow> d | Some y \<Rightarrow> y)"

definition job_of :: "job_fields \<Rightarrow> job" where
  "job_of f =
     \<lparr>jb_argv = jf_argv f, jb_env = or_default (jf_env f) [], jb_workspace = jf_workspace f,
       jb_cgroup_parent = jf_cgroup_parent f, jb_memory_mb = or_default (jf_memory_mb f) default_memory_mb,
       jb_cpu_pct = or_default (jf_cpu_pct f) default_cpu_pct,
       jb_timeout_secs = or_default (jf_timeout_secs f) default_timeout_secs,
       jb_pids_max = or_default (jf_pids_max f) default_pids_max,
       jb_extra_ro_mounts = or_default (jf_extra_ro_mounts f) []\<rparr>"

record job_result =
  jr_exit_status :: int
  jr_stdout :: string
  jr_stderr :: string
  jr_wall_time_ms :: u64
  jr_peak_memory_bytes :: u64
  jr_cpu_time_us :: u64
  jr_termination :: string
  jr_seccomp_violation :: "u32 option"
  jr_ok :: bool

text \<open>A product of \<open>u64\<close> values; None is the panic of a build with overflow checks.\<close>

definition mul_u64 :: "bool \<Rightarrow> u64 \<Rightarrow> u64 \<Rightarrow> u64 option" where
  "mul_u64 ovf a b = (if ovf \<and> 2 ^ 64 \<le> unat a * unat b then None else Some (a * b))"

definition clamp :: "u64 \<Rightarrow> u64 \<Rightarrow> u64 \<Rightarrow> u64" where
  "clamp x lo hi = (if x < lo then lo else if hi < x then hi else x)"

definition job_config :: "bool \<Rightarrow> job \<Rightarrow> sandbox_config option" where
  "job_config ovf j =
     (let period_us = 100000 in
      do { q \<leftarrow> mul_u64 ovf (clamp (jb_cpu_pct j) 1 100) period_us;
           kb \<leftarrow> mul_u64 ovf (jb_memory_mb j) 1024;
           memory \<leftarrow> mul_u64 ovf kb 1024;
           fs1 \<leftarrow> mul_u64 ovf 64 1024; fs2 \<leftarrow> mul_u64 ovf fs1 1024;
           st1 \<leftarrow> mul_u64 ovf 8 1024; st2 \<leftarrow> mul_u64 ovf st1 1024;
           Some \<lparr>workspace_path = jb_workspace j, memory_max_bytes = memory, cpu_quota_us = q div 100,
             cpu_period_us = period_us, pids_max = jb_pids_max j,
             ttl = \<lparr>as_secs = jb_timeout_secs j, subsec_nanos = 0\<rparr>, argv = jb_argv j, env = jb_env j,
             limits = \<lparr>max_open_files = 256, max_file_size_bytes = fs2, stack_size_bytes = st2\<rparr>,
             cgroup_parent = jb_cgroup_parent j, extra_ro_mounts = jb_extra_ro_mounts j\<rparr> })"

definition job_result_of :: "execution_report \<Rightarrow> job_result" where
  "job_result_of rep =
     \<lparr>jr_exit_status = exit_status rep, jr_stdout = to_string_lossy (string_at (stdout_bytes rep)),
       jr_stderr = to_string_lossy (string_at (stderr_bytes rep)),
       jr_wall_time_ms = word_of_int (wall_time rep div 1000000),
       jr_peak_memory_bytes = rep_peak_memory_bytes rep, jr_cpu_time_us = rep_cpu_time_us rep,
       jr_termination = termination_string (reason rep), jr_seccomp_violation = seccomp_violation rep,
       jr_ok = True\<rparr>"

text \<open>
  How \<open>main\<close> ends: the process exits with a code or panics; or this is not the process that called it
  but the fork server it became; or the fuel of the run has ended.
\<close>

datatype main_end = Ended int | MainPanicked | InServer server_end | StillRunning

text \<open>The macros that print panic when the stream cannot be written.\<close>

definition println :: "'w kernel \<Rightarrow> string \<Rightarrow> ('w, unit, main_end) io \<Rightarrow> ('w, unit, main_end) io" where
  "println k msg m = bnd (call_try k (Env (PrintOut (msg @ [newline])))) (\<lambda>r.
     case r of Inl _ \<Rightarrow> ret MainPanicked | Inr _ \<Rightarrow> m)"

definition eprintln :: "'w kernel \<Rightarrow> string \<Rightarrow> ('w, unit, main_end) io \<Rightarrow> ('w, unit, main_end) io" where
  "eprintln k msg m = bnd (call_try k (Env (PrintErr (msg @ [newline])))) (\<lambda>r.
     case r of Inl _ \<Rightarrow> ret MainPanicked | Inr _ \<Rightarrow> m)"

definition die :: "'w kernel \<Rightarrow> (string \<Rightarrow> string option) \<Rightarrow> string \<Rightarrow> ('w, unit, main_end) io" where
  "die k err_json msg =
     eprintln k (or_default (err_json msg) [])
       (bnd (call_ignore k (Proc (ExitProcess 1))) (\<lambda>_. ret (Ended 1)))"

definition finish ::
  "'w kernel \<Rightarrow> (job_result \<Rightarrow> string option) \<Rightarrow> (string \<Rightarrow> string option) \<Rightarrow> (errno \<Rightarrow> string) \<Rightarrow> (io_error \<Rightarrow> string) \<Rightarrow>
   sandbox_error + execution_report option \<Rightarrow> ('w, unit, main_end) io" where
  "finish k to_json err_json se sio r =
     (case r of
        Inl e \<Rightarrow> die k err_json (''sandbox run failed: '' @ display_error se sio e)
      | Inr None \<Rightarrow> ret StillRunning
      | Inr (Some rep) \<Rightarrow>
          (case to_json (job_result_of rep) of
             None \<Rightarrow> ret MainPanicked
           | Some out \<Rightarrow> println k out (ret (Ended 0))))"

definition run_job ::
  "'w kernel \<Rightarrow> (job_result \<Rightarrow> string option) \<Rightarrow> (string \<Rightarrow> string option) \<Rightarrow> (errno \<Rightarrow> string) \<Rightarrow> (io_error \<Rightarrow> string) \<Rightarrow>
   (i32 \<Rightarrow> errno) \<Rightarrow> fd \<Rightarrow> sandbox_config \<Rightarrow> nat \<Rightarrow> ('w, unit, main_end) io" where
  "run_job k to_json err_json se sio from_raw sock c n =
     bnd (call_try k (Env TokioNew)) (\<lambda>r.
     case r of
       Inl e \<Rightarrow> die k err_json (''tokio runtime failed: '' @ sio e)
     | Inr _ \<Rightarrow> bnd (attempt (runtime_run k from_raw sock c n)) (finish k to_json err_json se sio))"

definition start_job ::
  "'w kernel \<Rightarrow> (job_result \<Rightarrow> string option) \<Rightarrow> (string \<Rightarrow> string option) \<Rightarrow> (errno \<Rightarrow> string) \<Rightarrow> (io_error \<Rightarrow> string) \<Rightarrow>
   (i32 \<Rightarrow> errno) \<Rightarrow> bool \<Rightarrow> nat \<Rightarrow> job \<Rightarrow> sandbox_error + spawned \<Rightarrow> ('w, unit, main_end) io" where
  "start_job k to_json err_json se sio from_raw ovf n job r =
     (case r of
        Inl e \<Rightarrow> die k err_json (''Runtime::init failed: '' @ display_error se sio e)
      | Inr (ServerProcess e) \<Rightarrow> ret (InServer e)
      | Inr (ForkServer sock) \<Rightarrow>
          (case job_config ovf job of
             None \<Rightarrow> ret MainPanicked
           | Some c \<Rightarrow> run_job k to_json err_json se sio from_raw sock c n))"

definition main ::
  "'w kernel \<Rightarrow> (string \<Rightarrow> string + job_fields) \<Rightarrow> (job_result \<Rightarrow> string option) \<Rightarrow> (string \<Rightarrow> string option) \<Rightarrow>
   (errno \<Rightarrow> string) \<Rightarrow> (io_error \<Rightarrow> string) \<Rightarrow> (i32 \<Rightarrow> errno) \<Rightarrow> (string \<Rightarrow> u32) \<Rightarrow> bool \<Rightarrow> nat \<Rightarrow> nat \<Rightarrow>
   ('w, unit, main_end) io" where
  "main k parse_job to_json err_json se sio from_raw sys ovf served n =
     bnd (call_try k (Env ReadStdin)) (\<lambda>r.
     case r of
       Inl e \<Rightarrow> die k err_json (''failed to read stdin: '' @ sio e)
     | Inr raw \<Rightarrow>
         (case parse_job (string_at (ans_data raw)) of
            Inl e \<Rightarrow> die k err_json (''invalid JSON job: '' @ e)
          | Inr found \<Rightarrow>
              bnd (attempt (runtime_init k sys served))
                (start_job k to_json err_json se sio from_raw ovf n (job_of found))))"

section \<open>The configuration\<close>

lemma mul_u64_Some: "mul_u64 ovf a b = Some c \<Longrightarrow> c = a * b"
  by (simp add: mul_u64_def split: if_splits)

lemma unat_mul_u64:
  "mul_u64 ovf a b = Some c \<Longrightarrow> unat c = unat a * unat b mod 2 ^ 64"
  by (auto simp: mul_u64_def unat_mult_lem unat_word_ariths split: if_splits)

lemma clamp_unat: "1 \<le> unat (clamp x 1 100) \<and> unat (clamp x 1 100) \<le> 100"
  by (auto simp: clamp_def not_less word_le_nat_alt word_less_nat_alt)

lemma quota_bounds:
  assumes "q = clamp x 1 100 * 100000"
  shows "1000 \<le> q div (100 :: u64)" and "q div (100 :: u64) \<le> 100000"
proof -
  have q: "unat q = unat (clamp x 1 100) * 100000"
    using clamp_unat [of x] by (simp add: assms unat_word_ariths)
  then have "unat (q div 100) = unat (clamp x 1 100) * 1000" by (simp add: unat_div)
  with clamp_unat [of x] show "1000 \<le> q div (100 :: u64)" and "q div (100 :: u64) \<le> 100000"
    by (simp_all add: word_le_nat_alt)
qed

text \<open>What a job asks for that \<open>validate\<close> checks.\<close>

definition job_sound :: "job \<Rightarrow> bool" where
  "job_sound j \<longleftrightarrow>
     jb_argv j \<noteq> [] \<and> unat (jb_memory_mb j) mod 2 ^ 44 \<noteq> 0 \<and> jb_pids_max j \<noteq> 0 \<and> jb_timeout_secs j \<noteq> 0 \<and>
     is_absolute (jb_workspace j) \<and> is_absolute (jb_cgroup_parent j) \<and>
     list_all (\<lambda>m. is_absolute (fst m) \<and> is_absolute (snd m)) (jb_extra_ro_mounts j)"

text \<open>Only the memory limit can overflow.\<close>

lemma job_config_eq:
  "job_config ovf j =
     do { kb \<leftarrow> mul_u64 ovf (jb_memory_mb j) 1024; m \<leftarrow> mul_u64 ovf kb 1024;
          Some \<lparr>workspace_path = jb_workspace j, memory_max_bytes = m,
            cpu_quota_us = clamp (jb_cpu_pct j) 1 100 * 100000 div 100, cpu_period_us = 100000,
            pids_max = jb_pids_max j, ttl = \<lparr>as_secs = jb_timeout_secs j, subsec_nanos = 0\<rparr>, argv = jb_argv j,
            env = jb_env j,
            limits = \<lparr>max_open_files = 256, max_file_size_bytes = 67108864, stack_size_bytes = 8388608\<rparr>,
            cgroup_parent = jb_cgroup_parent j, extra_ro_mounts = jb_extra_ro_mounts j\<rparr> }"
proof -
  have "mul_u64 ovf (clamp (jb_cpu_pct j) 1 100) 100000 = Some (clamp (jb_cpu_pct j) 1 100 * 100000)"
    using clamp_unat [of "jb_cpu_pct j"] by (simp add: mul_u64_def)
  moreover have "mul_u64 ovf 64 1024 = Some 65536" "mul_u64 ovf 65536 1024 = Some 67108864"
    "mul_u64 ovf 8 1024 = Some 8192" "mul_u64 ovf 8192 1024 = Some 8388608"
    by (simp_all add: mul_u64_def)
  ultimately show ?thesis by (simp add: job_config_def)
qed

lemma job_config_Some:
  assumes "job_config ovf j = Some c"
  shows "cpu_quota_us c = clamp (jb_cpu_pct j) 1 100 * 100000 div 100" and "cpu_period_us c = 100000"
    and "unat (memory_max_bytes c) = unat (jb_memory_mb j) * 2 ^ 20 mod 2 ^ 64"
    and "argv c = jb_argv j" "pids_max c = jb_pids_max j" "ttl c = \<lparr>as_secs = jb_timeout_secs j, subsec_nanos = 0\<rparr>"
    and "workspace_path c = jb_workspace j" "cgroup_parent c = jb_cgroup_parent j" "extra_ro_mounts c = jb_extra_ro_mounts j"
    and "stack_size_bytes (limits c) = 8388608" "env c = jb_env j"
proof -
  from assms obtain kb m where kb: "mul_u64 ovf (jb_memory_mb j) 1024 = Some kb" and m: "mul_u64 ovf kb 1024 = Some m"
    and c: "c = \<lparr>workspace_path = jb_workspace j, memory_max_bytes = m,
            cpu_quota_us = clamp (jb_cpu_pct j) 1 100 * 100000 div 100, cpu_period_us = 100000,
            pids_max = jb_pids_max j, ttl = \<lparr>as_secs = jb_timeout_secs j, subsec_nanos = 0\<rparr>, argv = jb_argv j,
            env = jb_env j,
            limits = \<lparr>max_open_files = 256, max_file_size_bytes = 67108864, stack_size_bytes = 8388608\<rparr>,
            cgroup_parent = jb_cgroup_parent j, extra_ro_mounts = jb_extra_ro_mounts j\<rparr>"
    unfolding job_config_eq by (auto simp: bind_eq_Some_conv)
  have "unat m = unat kb * 1024 mod 2 ^ 64" "unat kb = unat (jb_memory_mb j) * 1024 mod 2 ^ 64"
    using unat_mul_u64 [OF m] unat_mul_u64 [OF kb] by simp_all
  then have "unat m = unat (jb_memory_mb j) * 2 ^ 20 mod 2 ^ 64" by (simp add: mod_mult_left_eq mult.assoc)
  with c show "cpu_quota_us c = clamp (jb_cpu_pct j) 1 100 * 100000 div 100" "cpu_period_us c = 100000"
    "unat (memory_max_bytes c) = unat (jb_memory_mb j) * 2 ^ 20 mod 2 ^ 64"
    "argv c = jb_argv j" "pids_max c = jb_pids_max j" "ttl c = \<lparr>as_secs = jb_timeout_secs j, subsec_nanos = 0\<rparr>"
    "workspace_path c = jb_workspace j" "cgroup_parent c = jb_cgroup_parent j" "extra_ro_mounts c = jb_extra_ro_mounts j"
    "stack_size_bytes (limits c) = 8388608" "env c = jb_env j"
    by simp_all
qed

lemma job_config_None: "job_config ovf j = None \<longleftrightarrow> ovf \<and> 2 ^ 44 \<le> unat (jb_memory_mb j)"
proof -
  have kb: "unat (jb_memory_mb j * 1024) = unat (jb_memory_mb j) * 1024" if "unat (jb_memory_mb j) * 1024 < 2 ^ 64"
    using that by (simp add: unat_word_ariths)
  show ?thesis
    unfolding job_config_eq
    using kb by (cases "unat (jb_memory_mb j) * 1024 < 2 ^ 64") (auto simp: mul_u64_def bind_eq_None_conv)
qed

lemma job_config_valid:
  assumes "job_config ovf j = Some c"
  shows "validate c = Inr () \<longleftrightarrow> job_sound j"
proof -
  note c = job_config_Some [OF assms]
  have m: "memory_max_bytes c = 0 \<longleftrightarrow> unat (jb_memory_mb j) mod 2 ^ 44 = 0"
  proof -
    have "unat (jb_memory_mb j) * 2 ^ 20 mod 2 ^ 64 = (unat (jb_memory_mb j) mod 2 ^ 44) * 2 ^ 20"
      using mult_mod_left [of "unat (jb_memory_mb j)" "2 ^ 44" "2 ^ 20"] by simp
    then show ?thesis using c(3) by (simp add: unat_eq_zero [symmetric])
  qed
  have mounts: "list_all fst (concat (map mount_checks ms)) \<longleftrightarrow> list_all (\<lambda>m. is_absolute (fst m) \<and> is_absolute (snd m)) ms" for ms
    by (induction ms) (auto simp: mount_checks_def)
  have "0 < cpu_quota_us c" "cpu_quota_us c \<le> cpu_period_us c"
    using quota_bounds [OF refl, of "jb_cpu_pct j"] by (simp_all add: c word_le_nat_alt word_less_nat_alt)
  then show ?thesis
    unfolding validate_ok valid_config_def checks_def job_sound_def
    using m by (simp add: c mounts is_zero_def)
qed

section \<open>What the program prints\<close>

definition silent :: "call \<Rightarrow> bool" where
  "silent c \<longleftrightarrow> (\<nexists>s. c = Env (PrintOut s) \<or> c = Env (PrintErr s))"

lemma silent_simps [simp]:
  "silent (Fs f)" "silent (Fd d)" "silent (Sock x)" "silent (Proc p)" "silent (Env (SleepMs n))" "silent (Env SystemTimeNow)"
  "silent (Env ProcessId)" "silent (Env TokioNew)" "silent (Env ReadStdin)" "\<not> silent (Env (PrintOut s))" "\<not> silent (Env (PrintErr s))"
  by (simp_all add: silent_def)

lemma plain_silent: "plain c \<Longrightarrow> silent c"
  by (auto simp: silent_def)

lemma stays_runtime_run: "stays silent (runtime_run k from_raw sock c n)"
  unfolding runtime_run_def run_def
  by (intro stays_rules stays_cgroup stays_execute) (simp_all add: plain_silent)

lemma emits_fork_server_main: "emits (fork_server_main k sys sock n) (\<lambda>_ _. False) (\<lambda>_ _. True)"
  unfolding fork_server_main_def
  by (intro emits_bnd emits_call_ignore, rule emits_weaken [OF emits_serve]) simp_all

definition parent_silent :: "spawned \<Rightarrow> event list \<Rightarrow> bool" where
  "parent_silent r es \<longleftrightarrow> (\<forall>sock. r = ForkServer sock \<longrightarrow> only silent es)"

lemma closes_silent: "calls_of es = map (\<lambda>f. Fd (CloseFd f)) fds \<Longrightarrow> only silent es"
  by (induction fds arbitrary: es) (auto simp: map_eq_Cons_conv)

lemma emits_close_quiet: "emits (close_all k fds) E (\<lambda>_. only silent)"
  by (rule emits_weaken [OF emits_close_all]) (auto intro: closes_silent)

lemma emits_runtime_init:
  fixes k :: "'w kernel"
  shows "emits (runtime_init k sys n) (\<lambda>_. only silent) parent_silent"
  unfolding runtime_init_def spawn_def Let_def
proof (rule emits_bnd, rule emits_call_io, simp, rule emits_bnd, rule emits_weaken)
  fix pair :: answer
  show "emits (or_close k [pipe_end pair 1, pipe_end pair 0] (call_last k (Proc Fork) NamespaceCloneFailed))
      (\<lambda>_. only silent) (\<lambda>_. only silent)"
    by (fold stays_def, intro stays_rules) simp_all
next
  fix pair pid :: answer and es
  assume quiet: "only silent es"
  have child: "emits (bnd (close_all k [pipe_end pair 0]) (\<lambda>_. bnd (fork_server_main k sys (pipe_end pair 1) n)
      (\<lambda>e. ret (ServerProcess e))) :: ('w, sandbox_error, spawned) io) (\<lambda>e es'. only silent ([(Sock SocketPair, Inr pair)] @ es @ es'))
      (\<lambda>y es'. parent_silent y ([(Sock SocketPair, Inr pair)] @ es @ es'))"
    by (rule emits_bnd, rule emits_weaken [OF emits_close_all [where E = "\<lambda>_ _. False"]], simp,
        rule emits_bnd, rule emits_weaken [OF emits_fork_server_main], simp, rule emits_ret)
      (simp add: parent_silent_def)
  have parent: "emits (bnd (close_all k [pipe_end pair 1]) (\<lambda>_. ret (ForkServer (pipe_end pair 0)))
      :: ('w, sandbox_error, spawned) io) (\<lambda>e es'. only silent ([(Sock SocketPair, Inr pair)] @ es @ es'))
      (\<lambda>y es'. parent_silent y ([(Sock SocketPair, Inr pair)] @ es @ es'))"
    by (rule emits_bnd, rule emits_weaken [OF emits_close_quiet [where E = "\<lambda>_ _. False"]], simp, rule emits_ret)
      (simp add: parent_silent_def quiet)
  from child parent show "emits ((if ans_num pid = 0
        then bnd (close_all k [pipe_end pair 0]) (\<lambda>_. bnd (fork_server_main k sys (pipe_end pair 1) n)
          (\<lambda>e. ret (ServerProcess e)))
        else bnd (close_all k [pipe_end pair 1]) (\<lambda>_. ret (ForkServer (pipe_end pair 0)))) :: ('w, sandbox_error, spawned) io)
      (\<lambda>e es'. only silent ([(Sock SocketPair, Inr pair)] @ es @ es'))
      (\<lambda>y es'. parent_silent y ([(Sock SocketPair, Inr pair)] @ es @ es'))"
    by simp
qed simp

lemma gives_runtime_run: "gives (runtime_run k from_raw sock c n) (\<lambda>r. \<forall>rep. r = Some rep \<longrightarrow> report_ok rep)"
  unfolding runtime_run_def by (intro gives_bnd gives_run)

text \<open>The one thing a finished process printed, and on which stream.\<close>

definition said :: "(job_result \<Rightarrow> string option) \<Rightarrow> (string \<Rightarrow> string option) \<Rightarrow> int \<Rightarrow> event list \<Rightarrow> bool" where
  "said to_json err_json c es \<longleftrightarrow>
     (if c = 0 then \<exists>rep out x. report_ok rep \<and> to_json (job_result_of rep) = Some out \<and>
        es = [(Env (PrintOut (out @ [newline])), Inr x)]
      else c = 1 \<and> (\<exists>msg x y.
        es = [(Env (PrintErr (or_default (err_json msg) [] @ [newline])), Inr x), (Proc (ExitProcess 1), y)]))"

definition printed :: "(job_result \<Rightarrow> string option) \<Rightarrow> (string \<Rightarrow> string option) \<Rightarrow> int \<Rightarrow> event list \<Rightarrow> bool" where
  "printed to_json err_json c es \<longleftrightarrow> (\<exists>quiet es'. es = quiet @ es' \<and> only silent quiet \<and> said to_json err_json c es')"

definition ends_printed :: "(job_result \<Rightarrow> string option) \<Rightarrow> (string \<Rightarrow> string option) \<Rightarrow> main_end \<Rightarrow> event list \<Rightarrow> bool" where
  "ends_printed to_json err_json r es \<longleftrightarrow> (\<forall>c. r = Ended c \<longrightarrow> printed to_json err_json c es)"

lemma ends_printed_other [simp]:
  "ends_printed to_json err_json MainPanicked es" "ends_printed to_json err_json (InServer e) es"
  "ends_printed to_json err_json StillRunning es"
  by (simp_all add: ends_printed_def)

lemma printed_before:
  assumes "only silent pre" and "ends_printed to_json err_json r es"
  shows "ends_printed to_json err_json r (pre @ es)"
  unfolding ends_printed_def
proof (intro allI impI)
  fix c
  assume "r = Ended c"
  then obtain quiet es' where e: "es = quiet @ es'" "only silent quiet" "said to_json err_json c es'"
    using assms(2) by (auto simp: ends_printed_def printed_def)
  then have "only silent (pre @ quiet)" using assms(1) by simp
  with e show "printed to_json err_json c (pre @ es)"
    unfolding printed_def by (intro exI [of _ "pre @ quiet"] exI [of _ es']) simp
qed

lemma printed_now: "said to_json err_json c es \<Longrightarrow> ends_printed to_json err_json (Ended c) es"
  unfolding ends_printed_def printed_def by (auto intro: exI [of _ "[]"])

lemma emits_before:
  assumes "only silent es" and "emits m (\<lambda>_ _. False) (ends_printed to_json err_json)"
  shows "emits m (\<lambda>_ _. False) (\<lambda>r es'. ends_printed to_json err_json r (es @ es'))"
  by (rule emits_weaken [OF assms(2)]) (use assms(1) in \<open>auto intro: printed_before\<close>)

lemma printed_ok:
  "report_ok rep \<Longrightarrow> to_json (job_result_of rep) = Some out \<Longrightarrow>
   ends_printed to_json err_json (Ended 0) [(Env (PrintOut (out @ [newline])), Inr x)]"
  by (rule printed_now) (auto simp: said_def)

lemma printed_err:
  "ends_printed to_json err_json (Ended 1)
     [(Env (PrintErr (or_default (err_json msg) [] @ [newline])), Inr x), (Proc (ExitProcess 1), y)]"
  by (rule printed_now) (auto simp: said_def)

lemma emits_println:
  assumes "\<And>x. Q v [(Env (PrintOut (msg @ [newline])), Inr x)]" and "\<And>es. Q MainPanicked es"
  shows "emits (println k msg (ret v)) (\<lambda>_ _. False) Q"
  unfolding println_def
proof (rule emits_bnd, rule emits_call_try)
  fix r :: reply
  show "emits (case r of Inl _ \<Rightarrow> ret MainPanicked | Inr _ \<Rightarrow> ret v) (\<lambda>_ _. False)
      (\<lambda>y es'. Q y ([(Env (PrintOut (msg @ [newline])), r)] @ es'))"
    by (cases r) (auto intro!: emits_ret assms)
qed

lemma emits_die: "emits (die k err_json msg) (\<lambda>_ _. False) (ends_printed to_json err_json)"
  unfolding die_def eprintln_def
proof (rule emits_bnd, rule emits_call_try)
  fix r :: reply
  let ?ev = "(Env (PrintErr (or_default (err_json msg) [] @ [newline])), r)"
  show "emits (case r of Inl _ \<Rightarrow> ret MainPanicked
        | Inr _ \<Rightarrow> bnd (call_ignore k (Proc (ExitProcess 1))) (\<lambda>_. ret (Ended 1))) (\<lambda>_ _. False)
      (\<lambda>y es'. ends_printed to_json err_json y ([?ev] @ es'))"
    by (cases r) (auto intro!: emits_ret emits_bnd emits_call_ignore printed_err)
qed

lemma emits_finish:
  assumes "\<And>rep. r = Inr (Some rep) \<Longrightarrow> report_ok rep"
  shows "emits (finish k to_json err_json se sio r) (\<lambda>_ _. False) (ends_printed to_json err_json)"
proof (cases "\<exists>rep out. r = Inr (Some rep) \<and> to_json (job_result_of rep) = Some out")
  case True
  then obtain rep out where r: "r = Inr (Some rep)" "to_json (job_result_of rep) = Some out" by blast
  have "emits (println k out (ret (Ended 0))) (\<lambda>_ _. False) (ends_printed to_json err_json)"
    by (rule emits_println) (simp_all add: printed_ok [of rep] assms r)
  then show ?thesis by (simp add: finish_def r)
next
  case False
  then show ?thesis
    unfolding finish_def by (auto intro!: emits_ret emits_die split: sum.splits option.splits)
qed


lemma emits_run_job:
  "emits (run_job k to_json err_json se sio from_raw sock c n) (\<lambda>_ _. False) (ends_printed to_json err_json)"
  unfolding run_job_def
proof (rule emits_bnd, rule emits_call_try)
  fix x :: reply
  have run: "emits (bnd (attempt (runtime_run k from_raw sock c n)) (finish k to_json err_json se sio))
      (\<lambda>_ _. False) (ends_printed to_json err_json)"
  proof (rule emits_bnd, rule emits_attempt, rule emits_weaken)
    show "emits (runtime_run k from_raw sock c n) (\<lambda>_. only silent)
        (\<lambda>r es. only silent es \<and> (\<forall>rep. r = Some rep \<longrightarrow> report_ok rep))"
      by (rule emits_gives [OF stays_runtime_run [unfolded stays_def] gives_runtime_run])
  qed (auto intro!: emits_before emits_finish)
  show "emits (case x of
       Inl e \<Rightarrow> die k err_json (''tokio runtime failed: '' @ sio e)
     | Inr _ \<Rightarrow> bnd (attempt (runtime_run k from_raw sock c n)) (finish k to_json err_json se sio))
      (\<lambda>_ _. False) (\<lambda>r es. ends_printed to_json err_json r ([(Env TokioNew, x)] @ es))"
    by (cases x; simp only: sum.case; rule emits_before) (simp_all add: emits_die run)
qed


lemma emits_start_job:
  "emits (start_job k to_json err_json se sio from_raw ovf n job r) (\<lambda>_ _. False) (ends_printed to_json err_json)"
  unfolding start_job_def
  by (auto intro!: emits_die emits_ret emits_run_job split: sum.splits spawned.splits option.splits)

lemma emits_main:
  "emits (main k parse_job to_json err_json se sio from_raw sys ovf served n) (\<lambda>_ _. False) (ends_printed to_json err_json)"
  unfolding main_def
proof (rule emits_bnd, rule emits_call_try)
  fix x :: reply
  have start: "emits (bnd (attempt (runtime_init k sys served)) (start_job k to_json err_json se sio from_raw ovf n job))
      (\<lambda>_ _. False) (ends_printed to_json err_json)" for job
  proof (rule emits_bnd, rule emits_attempt, rule emits_weaken [OF emits_runtime_init])
    fix r :: spawned and es
    assume "parent_silent r es"
    then show "emits (start_job k to_json err_json se sio from_raw ovf n job (Inr r))
        (\<lambda>_ _. False) (\<lambda>y es'. ends_printed to_json err_json y (es @ es'))"
    proof (cases r)
      case (ForkServer sock)
      with \<open>parent_silent r es\<close> have "only silent es" by (simp add: parent_silent_def)
      then show ?thesis by (rule emits_before [OF _ emits_start_job])
    qed (simp add: start_job_def emits_ret)
  qed (auto intro: emits_before emits_start_job)
  show "emits (case x of
       Inl e \<Rightarrow> die k err_json (''failed to read stdin: '' @ sio e)
     | Inr raw \<Rightarrow>
         (case parse_job (string_at (ans_data raw)) of
            Inl e \<Rightarrow> die k err_json (''invalid JSON job: '' @ e)
          | Inr found \<Rightarrow>
              bnd (attempt (runtime_init k sys served))
                (start_job k to_json err_json se sio from_raw ovf n (job_of found))))
      (\<lambda>_ _. False) (\<lambda>r es. ends_printed to_json err_json r ([(Env ReadStdin, x)] @ es))"
    by (rule emits_before) (auto intro: emits_die start split: sum.splits)
qed


section \<open>Examples\<close>

definition example_fields :: job_fields where
  "example_fields = \<lparr>jf_argv = [''/b''], jf_env = None, jf_workspace = ''/w'', jf_cgroup_parent = ''/c'',
     jf_memory_mb = None, jf_cpu_pct = Some 250, jf_timeout_secs = None, jf_pids_max = Some 8,
     jf_extra_ro_mounts = None\<rparr>"

lemmas job_code = job_of_def example_fields_def or_default_def default_memory_mb_def default_cpu_pct_def
  default_timeout_secs_def default_pids_max_def

lemma example_job_config:
  "job_config ovf (job_of example_fields) = Some
     \<lparr>workspace_path = ''/w'', memory_max_bytes = 134217728, cpu_quota_us = 100000, cpu_period_us = 100000,
       pids_max = 8, ttl = \<lparr>as_secs = 10, subsec_nanos = 0\<rparr>, argv = [''/b''], env = [],
       limits = \<lparr>max_open_files = 256, max_file_size_bytes = 67108864, stack_size_bytes = 8388608\<rparr>,
       cgroup_parent = ''/c'', extra_ro_mounts = []\<rparr>"
  unfolding job_config_eq by (simp add: mul_u64_def clamp_def job_code)

text \<open>A kernel for the whole program: the fork gives this process the fork server's pid.\<close>

fun cli_reply :: "call \<Rightarrow> reply" where
  "cli_reply (Proc Fork) = Inr (done_ans\<lparr>ans_num := 7\<rparr>)"
| "cli_reply c = run_reply [10, 22] c"

abbreviation example_main :: "(unit + main_end) \<times> unit os" where
  "example_main \<equiv> main (scripted cli_reply) (\<lambda>_. Inr example_fields) (\<lambda>_. Some ''{}'') (\<lambda>_. None) (\<lambda>_. []) (\<lambda>_. [])
     id (\<lambda>_. 0) False 0 3 fresh_os"

lemma example_main_ends: "fst example_main = Inr (Ended 0)"
  by (simp add: main_def start_job_def run_job_def finish_def println_def runtime_init_def spawn_def runtime_run_def
      example_job_config validate_def checks_def is_zero_def run_code run_defs cgroup_run path_run example_response
      example_status example_texts cstring_new_def NUL_def numeral_3_eq_3 decode_status_def)

section \<open>Properties\<close>

text \<open>
  C26. The configuration of a job: the CPU quota is between 1 and 100 percent of the period whatever the job
  says, the memory limit is the MiB the job says times \<open>2 ^ 20\<close>, modulo \<open>2 ^ 64\<close>; a build with overflow
  checks panics instead when that product does not fit, from \<open>2 ^ 44\<close> MiB on, and nothing else makes it
  panic. The configuration passes \<open>validate\<close> exactly if the job has a program, absolute paths, and
  limits that are not 0.
\<close>

theorem job_config_bounds:
  "case job_config ovf j of
     None \<Rightarrow> ovf \<and> 2 ^ 44 \<le> unat (jb_memory_mb j)
   | Some c \<Rightarrow> \<not> (ovf \<and> 2 ^ 44 \<le> unat (jb_memory_mb j)) \<and>
       1000 \<le> cpu_quota_us c \<and> cpu_quota_us c \<le> 100000 \<and> cpu_period_us c = 100000 \<and>
       unat (memory_max_bytes c) = unat (jb_memory_mb j) * 2 ^ 20 mod 2 ^ 64 \<and>
       (validate c = Inr ()) = job_sound j"
proof (cases "job_config ovf j")
  case None
  then show ?thesis using job_config_None [of ovf j] by simp
next
  case (Some c)
  note job_config_Some(1-3) [OF Some] job_config_valid [OF Some]
  moreover have "\<not> (ovf \<and> 2 ^ 44 \<le> unat (jb_memory_mb j))" using Some job_config_None [of ovf j] by simp
  ultimately show ?thesis using Some quota_bounds [OF refl, of "jb_cpu_pct j"] by simp
qed

text \<open>
  C27. The program says one thing, on one stream: when \<open>main\<close> exits with 0 it has printed one line to
  standard output, the JSON of a consistent report, and nothing to standard error; when it exits with
  another code that is 1, and it printed one line to standard error and nothing to standard output. A
  panic is another end, of which nothing is said here.
\<close>

theorem main_prints_once:
  assumes "main k parse_job to_json err_json se sio from_raw sys ovf served n s = (Inr (Ended c), t)"
  shows "\<exists>quiet line. trace t = trace s @ quiet @ line \<and> only silent quiet \<and>
    (if c = 0 then \<exists>rep out x. report_ok rep \<and> to_json (job_result_of rep) = Some out \<and>
       line = [(Env (PrintOut (out @ [newline])), Inr x)]
     else c = 1 \<and> (\<exists>msg x y. line = [(Env (PrintErr (or_default (err_json msg) [] @ [newline])), Inr x),
       (Proc (ExitProcess 1), y)]))"
  using emits_Inr [OF emits_main assms] unfolding ends_printed_def printed_def said_def by blast

theorem main_prints_once_witness:
  "\<exists>quiet x. trace (snd example_main) = quiet @ [(Env (PrintOut (''{}'' @ [newline])), Inr x)] \<and> only silent quiet"
proof -
  have "example_main = (Inr (Ended 0), snd example_main)" using example_main_ends by (metis prod.collapse)
  from main_prints_once [OF this] show ?thesis by (auto simp: fresh_os_def)
qed

end
