(* ===== verification/Handshake.thy ===== *)
theory Handshake
  imports ForkServer
begin

text \<open>
  The handshake of \<^verbatim>\<open>src/fork_server.rs\<close> and \<^verbatim>\<open>src/namespace.rs\<close> over the eventfd: after \<open>clone3\<close>
  the server and the child run at the same time, and the child's first call waits for the server's
  signal. Here the events of the two runs are interleaved as the kernel may interleave them: a step
  takes the next event of either side, and a read of the eventfd succeeds only while its counter,
  which a write adds to and a read clears, is not 0.
\<close>

section \<open>Definitions\<close>

datatype side = Server | Child

text \<open>The events each side has still to make, the counter, and what happened so far.\<close>

datatype system = System (todo_server: "event list") (todo_child: "event list") (counter: nat)
  (done_events: "(side \<times> event) list")

definition start :: "event list \<Rightarrow> event list \<Rightarrow> system" where
  "start sv ch = System sv ch 0 []"

definition posts :: "fd \<Rightarrow> event \<Rightarrow> bool" where
  "posts efd ev \<longleftrightarrow> fst ev = Fd (WriteFd efd (le_bytes 8 (1 :: u64))) \<and> succeeded ev"

definition waits :: "fd \<Rightarrow> event \<Rightarrow> bool" where
  "waits efd ev \<longleftrightarrow> fst ev = Fd (ReadFd efd 8) \<and> (case snd ev of Inr a \<Rightarrow> ans_num a = 8 | Inl _ \<Rightarrow> False)"

inductive step :: "fd \<Rightarrow> system \<Rightarrow> system \<Rightarrow> bool" for efd where
  server: "step efd (System (ev # sv) ch n log)
     (System sv ch (if posts efd ev then Suc n else n) (log @ [(Server, ev)]))"
| child: "\<not> waits efd ev \<Longrightarrow> step efd (System sv (ev # ch) n log) (System sv ch n (log @ [(Child, ev)]))"
| passes: "waits efd ev \<Longrightarrow> 0 < n \<Longrightarrow>
     step efd (System sv (ev # ch) n log) (System sv ch 0 (log @ [(Child, ev)]))"

inductive_cases stepE: "step efd (System sv ch n log) S"

inductive_simps step_blocked: "step efd (System [] (ev # ch) 0 log) S"

abbreviation reach :: "fd \<Rightarrow> system \<Rightarrow> system \<Rightarrow> bool" where
  "reach efd \<equiv> (step efd)\<^sup>*\<^sup>*"

definition events_of :: "side \<Rightarrow> (side \<times> event) list \<Rightarrow> event list" where
  "events_of x log = map snd (filter (\<lambda>y. fst y = x) log)"

lemma events_of_simps [simp]:
  "events_of x [] = []" "events_of x (log @ log') = events_of x log @ events_of x log'"
  "events_of x ((y, ev) # log) = (if y = x then ev # events_of x log else events_of x log)"
  by (simp_all add: events_of_def)

lemma in_events_of: "ev \<in> set (events_of x log) \<longleftrightarrow> (x, ev) \<in> set log"
  by (force simp: events_of_def)

section \<open>The barrier\<close>

text \<open>Nobody passes before a signal.\<close>

fun signalled :: "fd \<Rightarrow> event list \<Rightarrow> event list \<Rightarrow> system \<Rightarrow> bool" where
  "signalled efd sv0 ch0 (System sv ch n log) \<longleftrightarrow>
     events_of Server log @ sv = sv0 \<and> events_of Child log @ ch = ch0 \<and>
     (0 < n \<longrightarrow> (\<exists>p \<in> set (events_of Server log). posts efd p)) \<and>
     (\<forall>pre w post. log = pre @ (Child, w) # post \<longrightarrow> waits efd w \<longrightarrow>
        (\<exists>p \<in> set (events_of Server pre). posts efd p))"

lemma append_split: 
  "(log @ [x] = pre @ y # post) \<longleftrightarrow> (\<exists>post'. post = post' @ [x] \<and> log = pre @ y # post') \<or> post = [] \<and> log = pre \<and> x = y"
  by (cases post rule: rev_cases) auto

lemma signalled_step: "step efd S S' \<Longrightarrow> signalled efd sv0 ch0 S \<Longrightarrow> signalled efd sv0 ch0 S'"
  by (induction rule: step.induct) (auto simp: append_split split: if_splits)

lemma signalled_reach: "reach efd (start sv ch) S \<Longrightarrow> signalled efd sv ch S"
  by (induction rule: rtranclp_induct) (auto simp: start_def intro: signalled_step)

text \<open>
  What the two sides promise, and what follows for any interleaving: the server signals only when the
  child is ready, and the child acts only after it passed the barrier.
\<close>

locale barrier =
  fixes efd :: fd
    and server :: "event list \<Rightarrow> bool"
    and child :: "event list \<Rightarrow> bool"
    and ready :: "event list \<Rightarrow> bool"
    and acts :: "event \<Rightarrow> bool"
  assumes ready_before_post: "server sv \<Longrightarrow> sv = pre @ ev # post \<Longrightarrow> posts efd ev \<Longrightarrow> ready pre"
    and ready_later: "ready es \<Longrightarrow> ready (es @ es')"
    and wait_before_act: "child ch \<Longrightarrow> ch = pre @ ev # post \<Longrightarrow> acts ev \<Longrightarrow> \<exists>w \<in> set pre. waits efd w"
begin

lemma posted_ready:
  assumes "server sv" and "sv = es @ rest" and "p \<in> set es" and "posts efd p"
  shows "ready es"
proof -
  obtain a b where es: "es = a @ p # b" using split_list [OF assms(3)] by blast
  then have "ready a" using ready_before_post [OF assms(1) _ assms(4), of a "b @ rest"] assms(2) by simp
  then show ?thesis using ready_later [of a "p # b"] es by simp
qed

lemma acts_ready:
  assumes "server sv" and "child ch" and "reach efd (start sv ch) S"
    and log: "done_events S = pre @ (Child, ev) # post" and "acts ev"
  shows "ready (events_of Server pre)"
proof -
  obtain sv' ch' n where S: "S = System sv' ch' n (pre @ (Child, ev) # post)" using log by (cases S) auto
  with signalled_reach [OF assms(3)]
  have sv: "sv = events_of Server pre @ events_of Server post @ sv'"
    and ch: "ch = events_of Child pre @ ev # events_of Child post @ ch'"
    and sig: "\<And>pre' w post'. pre @ (Child, ev) # post = pre' @ (Child, w) # post' \<Longrightarrow> waits efd w \<Longrightarrow>
        \<exists>p \<in> set (events_of Server pre'). posts efd p"
    by auto
  from wait_before_act [OF assms(2) ch assms(5)] obtain w where "(Child, w) \<in> set pre" "waits efd w"
    by (auto simp: in_events_of)
  then obtain a b where pre: "pre = a @ (Child, w) # b" by (metis split_list)
  with sig [of a w "b @ (Child, ev) # post"] \<open>waits efd w\<close>
  obtain p where "p \<in> set (events_of Server pre)" "posts efd p" by auto
  then show ?thesis by (rule posted_ready [OF assms(1) sv])
qed

end


section \<open>The two sides\<close>

definition no_read :: "call \<Rightarrow> bool" where
  "no_read c \<longleftrightarrow> (\<nexists>f n. c = Fd (ReadFd f n))"

lemma no_read_simps [simp]:
  "no_read (Fs f)" "no_read (Env e)" "no_read (Mnt m)" "no_read (Lsm l)" "no_read (Proc p)" "no_read (Fd (WriteFd g bs))"
  "no_read (Fd (Dup2 g h))" "no_read (Fd (CloseFd g))" "\<not> no_read (Fd (ReadFd g n))"
  by (simp_all add: no_read_def)

definition after_wait :: "'w kernel \<Rightarrow> (string \<Rightarrow> u32) \<Rightarrow> child_context \<Rightarrow> ('w, child_error, unit) io" where
  "after_wait k sys ctx =
     bnd (call_ignore k (Proc (Prctl PR_SET_PDEATHSIG (word_of_int SIGKILL)))) (\<lambda>_.
     bnd (or_errno (\<lambda>e. Failed (BuildRootfs, e)) (create_scratch_root k)) (\<lambda>new_root.
     bnd (map_error Failed (mount_setup k
            \<lparr>mc_workspace_path = rq_workspace_path (cc_req ctx),
             mc_extra_ro_mounts = rq_extra_ro_mounts (cc_req ctx), mc_new_root = new_root\<rparr>)) (\<lambda>_.
     bnd (or_errno (\<lambda>e. Failed (LandlockStage, e))
            (apply_ruleset k ''/workspace'' (rq_extra_ro_mounts (cc_req ctx)))) (\<lambda>_.
     bnd (map_error (\<lambda>e. Failed (ExecStage, e)) (apply_rlimits k (cc_req ctx))) (\<lambda>_.
     bnd (map_error (\<lambda>e. Failed (CapabilityDrop, e)) (drop_capabilities k)) (\<lambda>_.
     bnd (attach_stdio k ctx) (\<lambda>_.
     bnd (call_last k (Proc (Prctl PR_SET_NO_NEW_PRIVS 1)) (\<lambda>e. Failed (NoNewPrivs, e))) (\<lambda>_.
     bnd (call_ignore k (Proc (Prctl PR_SET_DUMPABLE 0))) (\<lambda>_.
     bnd (attempt (load_filter k sys)) (\<lambda>r.
       case r of
         Inr _ \<Rightarrow> ret ()
       | Inl (SeccompLoadFailed e) \<Rightarrow> throw (Failed (SeccompStage, e))
       | Inl _ \<Rightarrow> bnd get_errno (\<lambda>e. throw (Failed (SeccompStage, e)))))))))))))"

lemma confine_wait:
  "confine k sys ctx = bnd (map_error Failed (wait_for_mapping k (cc_sync_read_fd ctx))) (\<lambda>_. after_wait k sys ctx)"
  by (simp only: confine_def after_wait_def)

lemma stays_no_read: "stays no_read (mount_setup k mc)" "stays no_read (apply_ruleset k ws extra)"
  unfolding mount_setup_def do_mount_def bind_device_def bind_extra_def mask_proc_paths_def mask_proc_path_def
    pivot_def Let_def apply_ruleset_def probe_abi_version_def add_path_rule_def
  by (intro stays_rules; (simp only: split: prod.splits sum.splits option.splits)?; (intro allI impI stays_rules)?;
      simp add: stays_rules)+

lemma stays_after_wait: "stays no_read (after_wait k sys ctx)"
  unfolding after_wait_def create_scratch_root_def scratch_root_path_def apply_rlimits_def
    drop_capabilities_def attach_stdio_def load_filter_def Let_def
  by (intro stays_rules stays_no_read; (simp only: split: sum.splits sandbox_error.splits)?;
      (intro allI impI conjI stays_rules)?)
    (simp_all add: stays_rules)

text \<open>What the child still does when its wait fails.\<close>

definition report_call :: "child_context \<Rightarrow> call \<Rightarrow> bool" where
  "report_call ctx c \<longleftrightarrow> (\<exists>bs. c = Fd (WriteFd (cc_err_pipe_write ctx) bs)) \<or> c = Proc (ExitProcess 1)"

definition gated :: "child_context \<Rightarrow> event list \<Rightarrow> bool" where
  "gated ctx es \<longleftrightarrow>
     (\<exists>x rest. es = (Fd (ReadFd (cc_sync_read_fd ctx) 8), x) # rest \<and> only no_read rest \<and>
        (waits (cc_sync_read_fd ctx) (Fd (ReadFd (cc_sync_read_fd ctx) 8), x) \<or> only (report_call ctx) rest))"

lemma stays_exec_report:
  "stays no_read (exec_target k ctx)" "stays no_read (report_child_error k fd st e)"
  unfolding exec_target_def report_child_error_def
  by (auto intro!: stays_rules split: list.splits)

lemma emits_wait:
  "emits (wait_for_mapping k efd)
     (\<lambda>e es. \<exists>x. es = [(Fd (ReadFd efd 8), x)] \<and> \<not> waits efd (Fd (ReadFd efd 8), x))
     (\<lambda>_ es. \<exists>x. es = [(Fd (ReadFd efd 8), x)] \<and> waits efd (Fd (ReadFd efd 8), x))"
  unfolding wait_for_mapping_def
  by (intro emits_rules) (auto simp: waits_def split: sum.splits)

definition passed :: "child_context \<Rightarrow> event list \<Rightarrow> bool" where
  "passed ctx es \<longleftrightarrow>
     (\<exists>w rest. es = w # rest \<and> waits (cc_sync_read_fd ctx) w \<and> only no_read rest)"

definition refused :: "child_context \<Rightarrow> child_error \<Rightarrow> event list \<Rightarrow> bool" where
  "refused ctx f es \<longleftrightarrow> (\<exists>d x. f = Failed d \<and> es = [(Fd (ReadFd (cc_sync_read_fd ctx) 8), x)])"

lemma passed_later: "passed ctx es \<Longrightarrow> only no_read es' \<Longrightarrow> passed ctx (es @ es')"
  by (auto simp: passed_def)

lemma passed_gated: "passed ctx es \<Longrightarrow> gated ctx es"
  by (auto simp: passed_def gated_def waits_def)

lemma emits_after_passed:
  assumes "stays no_read m" and "passed ctx es"
  shows "emits m (\<lambda>_ es'. passed ctx (es @ es')) (\<lambda>_ es'. passed ctx (es @ es'))"
  using assms(1) unfolding stays_def by (rule emits_weaken) (auto intro: passed_later assms(2))

lemma emits_setup_gate:
  "emits (child_setup k sys ctx) (\<lambda>f es. refused ctx f es \<or> passed ctx es) (\<lambda>_. passed ctx)"
proof -
  let ?w = "map_error Failed (wait_for_mapping k (cc_sync_read_fd ctx)) :: ('a, child_error, unit) io"
  have wait: "emits ?w (\<lambda>f es. refused ctx f es \<or> passed ctx es) (\<lambda>_. passed ctx)"
    by (rule emits_map_error, rule emits_weaken [OF emits_wait]) (auto simp: refused_def passed_def)
  have rest: "emits m (\<lambda>f es'. refused ctx f (es @ es') \<or> passed ctx (es @ es')) (\<lambda>_ es'. passed ctx (es @ es'))"
    if "stays no_read m" "passed ctx es" for m :: "('a, child_error, unit) io" and es
    using emits_after_passed [OF that] by (rule emits_weaken) simp_all
  show ?thesis
    unfolding child_setup_def confine_wait
    by (rule emits_bnd, rule emits_bnd, rule emits_weaken [OF wait], assumption,
        rule emits_weaken [OF rest [OF stays_after_wait]], assumption, assumption, rule rest)
      (simp_all add: stays_exec_report)
qed

lemma emits_report:
  "emits (report_child_error k (cc_err_pipe_write ctx) stage e)
     E (\<lambda>_ es. only no_read es \<and> only (report_call ctx) es)"
  unfolding report_child_error_def by (intro emits_rules) (simp add: report_call_def)

lemma emits_gated: "emits (child_run k sys ctx) (\<lambda>_. gated ctx) (\<lambda>_. gated ctx)"
  unfolding child_run_def
proof (rule emits_bnd, rule emits_attempt, rule emits_weaken [OF emits_setup_gate])
  fix f es
  assume "refused ctx f es \<or> passed ctx es"
  then show "emits (case Inl f of Inr _ \<Rightarrow> ret Execed
        | Inl (Failed (stage, e)) \<Rightarrow> report_child_error k (cc_err_pipe_write ctx) stage e
        | Inl Panicked \<Rightarrow> throw ()) (\<lambda>_ es'. gated ctx (es @ es')) (\<lambda>_ es'. gated ctx (es @ es'))"
  proof
    assume "refused ctx f es"
    then show ?thesis
      by (auto simp: refused_def gated_def intro!: emits_weaken [OF emits_report [where E = "\<lambda>_ _. False"]])
  next
    assume p: "passed ctx es"
    show ?thesis
    proof (cases f)
      case (Failed d)
      obtain st e where "d = (st, e)" by (cases d)
      then show ?thesis
        using p Failed by (auto intro!: emits_weaken [OF emits_report [where E = "\<lambda>_ _. False"]] passed_gated passed_later)
    qed (use p in \<open>auto intro!: emits_throw passed_gated\<close>)
  qed
qed (auto intro!: emits_ret passed_gated)


text \<open>What the server makes true before it signals: the child is in its cgroup and has its maps.\<close>

definition placed :: "spawn_request \<Rightarrow> clone_result \<Rightarrow> event list \<Rightarrow> bool" where
  "placed req c es \<longleftrightarrow>
     (\<forall>m \<in> set (procs_call req c # map_calls (cr_child_pid c) (rq_host_uid req) (rq_host_gid req)).
        \<exists>a. (m, Inr a) \<in> set es)"

definition released :: "fd \<Rightarrow> spawn_request \<Rightarrow> fd \<Rightarrow> clone_result \<Rightarrow> fd \<Rightarrow> fd \<Rightarrow> event list \<Rightarrow> bool" where
  "released sock req efd c rd rd' es \<longleftrightarrow>
     release_cut sock req efd c es \<or> release_failed sock req c es \<or> release_done sock req efd c rd rd' es"

lemma released_run:
  assumes "trace (snd (release_child k sock req efd c rd rd' s)) = trace s @ sv"
  shows "released sock req efd c rd rd' sv"
proof -
  have "emits (release_child k sock req efd c rd rd') (\<lambda>_. released sock req efd c rd rd') (\<lambda>_. released sock req efd c rd rd')"
    by (rule emits_weaken [OF emits_release]) (auto simp: released_def)
  from emits_both [OF this, of s] assms show ?thesis by auto
qed

lemma placed_later: "placed req c es \<Longrightarrow> placed req c (es @ es')"
  by (fastforce simp: placed_def)

lemma posts_simps [simp]:
  "\<not> posts efd (Fs f, x)" "\<not> posts efd (Sock y, x)" "\<not> posts efd (procs_call req c, x)"
  by (simp_all add: posts_def procs_call_def)

lemma no_post_calls: "set (calls_of es) \<subseteq> range Fs \<union> range Sock \<Longrightarrow> ev \<in> set es \<Longrightarrow> \<not> posts efd ev"
  by (cases ev) (force simp: posts_def)

lemma map_calls_fs: "set (map_calls pid u g) \<subseteq> range Fs"
  by (simp add: map_calls_def)

lemma maps_no_post: "maps_written pid u g maps \<Longrightarrow> ev \<in> set maps \<Longrightarrow> \<not> posts efd ev"
  using map_calls_fs [of pid u g] by (intro no_post_calls) (auto simp: maps_written_def)

lemma failed_no_post: 
  assumes "release_failed sock req c es" and "ev \<in> set es" shows "\<not> posts efd ev"
proof (rule no_post_calls [OF _ assms(2)])
  have e: "set (error_calls sock n) \<subseteq> range Sock" for n by (simp add: error_calls_def)
  have m: "set (calls_of maps) \<subseteq> range Fs" if "maps_failed (cr_child_pid c) (rq_host_uid req) (rq_host_gid req) maps" for maps
    using that map_calls_fs [of "cr_child_pid c" "rq_host_uid req" "rq_host_gid req"]
    by (metis maps_failed_def order_trans set_take_subset)
  show "set (calls_of es) \<subseteq> range Fs \<union> range Sock"
    using assms(1) e m unfolding release_failed_def by (fastforce simp: procs_call_def)
qed

lemma placed_maps:
  "maps_written (cr_child_pid c) (rq_host_uid req) (rq_host_gid req) maps \<Longrightarrow>
   placed req c ((procs_call req c, Inr a) # maps)"
proof -
  assume m: "maps_written (cr_child_pid c) (rq_host_uid req) (rq_host_gid req) maps"
  have "\<exists>a. (x, Inr a) \<in> set maps" if "x \<in> set (map_calls (cr_child_pid c) (rq_host_uid req) (rq_host_gid req))" for x
  proof -
    from that m have "x \<in> fst ` set maps" by (metis maps_written_def set_map)
    then obtain r where "(x, r) \<in> set maps" by auto
    with m show ?thesis by (fastforce simp: maps_written_def all_ok_def succeeded_def)
  qed
  then show ?thesis by (auto simp: placed_def)
qed

lemma after_prefix:
  assumes "as @ bs = pre @ ev # post" and "\<And>x. x \<in> set as \<Longrightarrow> \<not> P x" and "P ev"
  shows "\<exists>cs. pre = as @ cs"
proof -
  from assms(1) consider us where "pre = as @ us" | us where "as = pre @ us" "us @ bs = ev # post"
    by (auto simp: append_eq_append_conv2)
  then show ?thesis
  proof cases
    case (2 us)
    then show ?thesis using assms(2,3) by (cases us) auto
  qed blast
qed

lemma released_posts:
  assumes "released sock req efd c rd rd' sv" and "sv = pre @ ev # post" and "posts efd ev"
  shows "placed req c pre"
proof -
  have "\<not> release_failed sock req c sv" using failed_no_post [of sock req c sv ev] assms(2,3) by auto
  then obtain a maps tail where sv: "sv = ((procs_call req c, Inr a) # maps) @ tail" and
    m: "maps_written (cr_child_pid c) (rq_host_uid req) (rq_host_gid req) maps"
    using assms(1) unfolding released_def release_cut_def release_done_def by auto
  have "\<exists>cs. pre = ((procs_call req c, Inr a) # maps) @ cs"
    by (rule after_prefix [of _ tail _ ev post "posts efd"])
      (use sv assms(2,3) maps_no_post [OF m] in auto)
  then show ?thesis using placed_later [OF placed_maps [OF m]] by auto
qed

lemma not_placed_failed: "released sock req efd c rd rd' sv \<Longrightarrow> \<not> placed req c sv \<Longrightarrow> release_failed sock req c sv"
  unfolding released_def release_cut_def release_done_def
  using placed_later [OF placed_maps] by fastforce

text \<open>An act of the child: anything but its wait and the report of a failed wait.\<close>

definition acts :: "child_context \<Rightarrow> event \<Rightarrow> bool" where
  "acts ctx ev \<longleftrightarrow> no_read (fst ev) \<and> \<not> report_call ctx (fst ev)"

interpretation spawn: barrier "cc_sync_read_fd ctx" "released sock req (cc_sync_read_fd ctx) c rd rd'" "gated ctx" "placed req c" "acts ctx"
  for ctx sock req c rd rd'
proof unfold_locales
  fix ch pre ev post
  assume "gated ctx ch" "ch = pre @ ev # post" "acts ctx ev"
  then show "\<exists>w \<in> set pre. waits (cc_sync_read_fd ctx) w"
    by (cases pre) (auto simp: gated_def acts_def only_def)
qed (auto intro: released_posts placed_later)


section \<open>Both sides run to their ends\<close>

lemma run_server:
  "reach efd (System sv ch n log)
     (System [] ch (n + length (filter (posts efd) sv)) (log @ map (Pair Server) sv))"
proof (induction sv arbitrary: n log)
  case (Cons ev sv)
  let ?m = "if posts efd ev then Suc n else n"
  have "step efd (System (ev # sv) ch n log) (System sv ch ?m (log @ [(Server, ev)]))" by (rule step.server)
  from converse_rtranclp_into_rtranclp [OF this Cons.IH] show ?case by (cases "posts efd ev") simp_all
qed simp

lemma run_child: "\<forall>ev \<in> set ch. \<not> waits efd ev \<Longrightarrow> reach efd (System sv ch n log) (System sv [] n (log @ map (Pair Child) ch))"
proof (induction ch arbitrary: log)
  case (Cons ev ch)
  then have "step efd (System sv (ev # ch) n log) (System sv ch n (log @ [(Child, ev)]))" by (simp add: step.child)
  with Cons converse_rtranclp_into_rtranclp [OF this Cons.IH] show ?case by simp
qed simp

text \<open>While nobody passed, the counter counts the signals.\<close>

fun counted :: "fd \<Rightarrow> system \<Rightarrow> bool" where
  "counted efd (System sv ch n log) \<longleftrightarrow>
     ((\<forall>w \<in> set (events_of Child log). \<not> waits efd w) \<longrightarrow> n = length (filter (posts efd) (events_of Server log)))"

lemma counted_step: "step efd S S' \<Longrightarrow> counted efd S \<Longrightarrow> counted efd S'"
  by (induction rule: step.induct) auto

lemma counted_reach: "reach efd (start sv ch) S \<Longrightarrow> counted efd S"
  by (induction rule: rtranclp_induct) (auto simp: start_def intro: counted_step)

lemma gated_waits: "gated ctx (w # rest) \<Longrightarrow> ev \<in> set rest \<Longrightarrow> \<not> waits (cc_sync_read_fd ctx) ev"
  by (auto simp: gated_def only_def waits_def no_read_def)

lemma completes:
  assumes ch: "gated ctx ch" and p: "p \<in> set sv" "posts (cc_sync_read_fd ctx) p"
    and r: "reach (cc_sync_read_fd ctx) (start sv ch) S"
  shows "\<exists>n log. reach (cc_sync_read_fd ctx) S (System [] [] n log)"
proof -
  let ?efd = "cc_sync_read_fd ctx"
  obtain sv' ch' n log where S: "S = System sv' ch' n log" by (cases S)
  have inv: "events_of Server log @ sv' = sv" "events_of Child log @ ch' = ch"
    using signalled_reach [OF r] by (simp_all add: S)
  let ?n = "n + length (filter (posts ?efd) sv')"
  let ?log = "log @ map (Pair Server) sv'"
  have run: "reach ?efd S (System [] ch' ?n ?log)" unfolding S by (rule run_server)
  show ?thesis
  proof (cases "\<forall>ev \<in> set ch'. \<not> waits ?efd ev")
    case True
    from rtranclp_trans [OF run run_child [OF True]] show ?thesis by blast
  next
    case False
    obtain w rest where w: "ch = w # rest" using ch by (auto simp: gated_def)
    with False inv(2) gated_waits [of ctx w rest] ch have e: "events_of Child log = []"
      by (cases "events_of Child log") auto
    have "n = length (filter (posts ?efd) (events_of Server log))"
      using counted_reach [OF r] by (simp add: S e)
    then have "?n = length (filter (posts ?efd) sv)" using inv(1) by (metis filter_append length_append)
    moreover have "filter (posts ?efd) sv \<noteq> []" using p by (auto simp: filter_empty_conv)
    ultimately have n: "0 < ?n" by simp
    have c: "ch' = w # rest" using e inv(2) w by simp
    with False gated_waits [of ctx w rest] ch w have "waits ?efd w" by auto
    then have "step ?efd (System [] ch' ?n ?log) (System [] rest 0 (?log @ [(Child, w)]))"
      unfolding c using n by (rule step.passes)
    with run have "reach ?efd S (System [] rest 0 (?log @ [(Child, w)]))" by (rule rtranclp.rtrancl_into_rtrancl)
    moreover have "\<forall>ev \<in> set rest. \<not> waits ?efd ev" using gated_waits [of ctx w rest] ch w by blast
    ultimately show ?thesis using run_child by (metis rtranclp_trans)
  qed
qed

lemma never_passes:
  assumes "\<forall>ev \<in> set sv. \<not> posts efd ev" and "waits efd w" and r: "reach efd (start sv (w # rest)) S"
  shows "\<exists>sv' log. S = System sv' (w # rest) 0 log"
proof -
  obtain sv' ch' n log where S: "S = System sv' ch' n log" by (cases S)
  have inv: "events_of Server log @ sv' = sv" "events_of Child log @ ch' = w # rest"
    "0 < n \<Longrightarrow> \<exists>p \<in> set (events_of Server log). posts efd p"
    "\<And>pre x post. log = pre @ (Child, x) # post \<Longrightarrow> waits efd x \<Longrightarrow> \<exists>p \<in> set (events_of Server pre). posts efd p"
    using signalled_reach [OF r] unfolding S signalled.simps by blast+
  have none: "\<not> posts efd p" if "p \<in> set (events_of Server log)" for p
    using assms(1) inv(1) that by auto
  have "(Child, w) \<notin> set log"
  proof
    assume "(Child, w) \<in> set log"
    then obtain pre post where log: "log = pre @ (Child, w) # post" by (metis split_list)
    from inv(4) [OF this assms(2)] none show False unfolding log by auto
  qed
  then have "events_of Child log = []"
    using inv(2) by (cases "events_of Child log") (auto simp: in_events_of [symmetric])
  with inv none S show ?thesis by fastforce
qed


lemma gated_run: "trace (snd (child_run k sys ctx s)) = trace s @ ch \<Longrightarrow> gated ctx ch"
  using emits_both [OF emits_gated, of k sys ctx s] by auto





section \<open>Examples\<close>

abbreviation example_clone :: clone_result where
  "example_clone \<equiv> \<lparr>cr_child_pid = 4242, cr_pidfd = 30\<rparr>"

abbreviation example_server :: "unit kernel \<Rightarrow> event list" where
  "example_server k \<equiv> trace (snd (release_child k 9 example_request 5 example_clone 20 21 fresh_os))"

abbreviation example_setup :: "event list" where
  "example_setup \<equiv> trace (snd (child_run (scripted (\<lambda>_. Inr (done_ans\<lparr>ans_num := 8\<rparr>))) (\<lambda>_. 0) example_child fresh_os))"

lemma example_facts: "cc_sync_read_fd example_child = 5" "trace fresh_os = []"
  by (simp_all add: example_child_def fresh_os_def)

lemma example_signal: "(Fd (WriteFd 5 (le_bytes 8 (1 :: u64))), Inr done_ans) \<in> set (example_server obliging)"
  by (simp add: run_defs release_child_def write_cgroup_procs_def write_uid_gid_maps_def Let_def)

lemma example_setup_done: "setup_done (\<lambda>_. 0) example_child example_setup"
proof -
  let ?run = "child_run (scripted (\<lambda>_. Inr (done_ans\<lparr>ans_num := 8\<rparr>))) (\<lambda>_. 0) example_child fresh_os"
  have "fst ?run = Inr Execed" by (simp add: run_defs child_run_defs mount_run)
  then have "?run = (Inr Execed, snd ?run)" by (metis prod.collapse)
  from emits_Inr [OF emits_child_run this] show ?thesis by (auto simp: example_facts)
qed

lemma example_exec: "\<exists>x. (exec_call example_child, Inr x) \<in> set example_setup"
  using example_setup_done by (auto simp: setup_done_def)

lemma example_waits: "waits 5 (hd example_setup)" "example_setup \<noteq> []"
  using example_setup_done by (auto simp: setup_done_def confined_def waits_def example_facts)

section \<open>Properties\<close>

text \<open>
  C3. Whatever the order the kernel runs them in, the child acts only once it is in its cgroup and has its
  maps: in every interleaving of a release and a child's run, each event of the child other than its
  wait and the report of a failed wait comes after the successful writes of cgroup.procs, setgroups,
  uid_map and gid_map.
\<close>

theorem child_acts_only_when_placed:
  assumes "trace (snd (release_child k sock req efd c rd rd' s)) = trace s @ sv"
    and "trace (snd (child_run k' sys ctx s')) = trace s' @ ch" and "cc_sync_read_fd ctx = efd"
    and "reach efd (start sv ch) (System sv' ch' n (pre @ (Child, ev) # post))" and "acts ctx ev"
  shows "\<forall>m \<in> set (procs_call req c # map_calls (cr_child_pid c) (rq_host_uid req) (rq_host_gid req)).
    \<exists>a. (Server, (m, Inr a)) \<in> set pre"
proof -
  have sv: "released sock req (cc_sync_read_fd ctx) c rd rd' sv" using released_run [OF assms(1)] assms(3) by simp
  from spawn.acts_ready [OF sv gated_run [OF assms(2)] assms(4) [folded assms(3)] _ assms(5)]
  have "placed req c (events_of Server pre)" by simp
  then show ?thesis by (simp add: placed_def in_events_of)
qed

theorem child_acts_only_when_placed_witness:
  "\<exists>n pre post x a. reach 5 (start (example_server obliging) example_setup)
       (System [] [] n (pre @ (Child, (exec_call example_child, x)) # post)) \<and>
     (Server, (procs_call example_request example_clone, Inr a)) \<in> set pre"
proof -
  have ch: "gated example_child example_setup"
    by (rule gated_run [where s = fresh_os]) (simp only: example_facts append_Nil)
  obtain n log where r: "reach 5 (start (example_server obliging) example_setup) (System [] [] n log)"
    using completes [OF ch example_signal _ rtranclp.rtrancl_refl] by (auto simp: example_facts posts_def succeeded_def)
  then have "events_of Child log = example_setup" using signalled_reach [OF r] by simp
  then obtain x where "(Child, (exec_call example_child, x)) \<in> set log" using example_exec by (metis in_events_of)
  then obtain pre post where log: "log = pre @ (Child, (exec_call example_child, x)) # post" by (metis split_list)
  have a: "acts example_child (exec_call example_child, x)" by (simp add: acts_def report_call_def)
  have "\<exists>a. (Server, (procs_call example_request example_clone, Inr a)) \<in> set pre"
    using child_acts_only_when_placed [where s = fresh_os and s' = fresh_os, OF _ _ example_facts(1) r [unfolded log] a]
    unfolding example_facts append_Nil by simp
  with r log show ?thesis by blast
qed

text \<open>
  C16. A signalled handshake completes: once the server's write to the eventfd succeeds in its run, every
  state an interleaving can reach leads to the one in which both sides have done all they had to do.
\<close>

theorem handshake_completes:
  assumes "trace (snd (child_run k' sys ctx s')) = trace s' @ ch" and "cc_sync_read_fd ctx = efd"
    and "trace (snd (release_child k sock req efd c rd rd' s)) = trace s @ sv"
    and "(Fd (WriteFd efd (le_bytes 8 (1 :: u64))), Inr b) \<in> set sv" and "reach efd (start sv ch) S"
  shows "\<exists>n log. reach efd S (System [] [] n log)"
  using completes [OF gated_run [OF assms(1)], of "(Fd (WriteFd efd (le_bytes 8 (1 :: u64))), Inr b)" sv S] assms(2,4,5)
  by (simp add: posts_def succeeded_def)

theorem handshake_completes_witness:
  "\<exists>n log. reach 5 (start (example_server obliging) example_setup) (System [] [] n log)"
  by (rule handshake_completes [where s = fresh_os and s' = fresh_os, OF _ example_facts(1) _ example_signal rtranclp.rtrancl_refl])
    (simp_all only: example_facts append_Nil)

text \<open>
  C17. A child whose placement failed waits for ever: if a write to cgroup.procs or to the maps failed, then
  in no interleaving does a child that its wait would block make any step, and the server's end
  leaves it at its wait in a state with no step at all. Nobody kills it.
\<close>

theorem abandoned_child_blocks:
  assumes "trace (snd (release_child k sock req efd c rd rd' s)) = trace s @ sv" and "\<not> placed req c sv"
    and "waits efd (hd ch)" and "ch \<noteq> []" and "reach efd (start sv ch) S"
  shows "todo_child S = ch \<and> (\<exists>S'. reach efd S S' \<and> todo_child S' = ch \<and> (\<nexists>S''. step efd S' S''))"
proof -
  obtain w rest where ch: "ch = w # rest" using assms(4) by (cases ch) auto
  have sv: "\<forall>ev \<in> set sv. \<not> posts efd ev"
    using failed_no_post [OF not_placed_failed [OF released_run [OF assms(1)] assms(2)]] by blast
  have w: "waits efd w" using assms(3) ch by simp
  from never_passes [OF sv w assms(5) [unfolded ch]] obtain sv' log where S: "S = System sv' (w # rest) 0 log" by blast
  have "set sv' \<subseteq> set sv" using signalled_reach [OF assms(5)] by (auto simp: S)
  then have "length (filter (posts efd) sv') = 0" using sv by (auto simp: filter_empty_conv)
  with run_server [of efd sv' "w # rest" 0 log]
  have "reach efd S (System [] (w # rest) 0 (log @ map (Pair Server) sv'))" by (simp add: S)
  moreover have "\<nexists>S''. step efd (System [] (w # rest) 0 (log @ map (Pair Server) sv')) S''"
    using w by (simp add: step_blocked)
  ultimately show ?thesis using S ch by (intro conjI exI) auto
qed

theorem abandoned_child_blocks_witness:
  "\<exists>S. reach 5 (start (example_server (failing (\<lambda>c. c = procs_call example_request example_clone) (OsError EIO))) example_setup) S \<and>
     todo_child S = example_setup \<and> (\<nexists>S'. step 5 S S')"
proof -
  let ?k = "failing (\<lambda>c. c = procs_call example_request example_clone) (OsError EIO)"
  have "(procs_call example_request example_clone, Inr a) \<notin> set (example_server ?k)" for a
    by (simp add: run_defs release_child_def write_cgroup_procs_def send_error_def procs_call_def Let_def)
  then have "\<not> placed example_request example_clone (example_server ?k)" by (auto simp: placed_def)
  from abandoned_child_blocks [where s = fresh_os, OF _ this example_waits rtranclp.rtrancl_refl]
  show ?thesis unfolding example_facts append_Nil by blast
qed



end
