(* ===== verification/Spec2Isabelle.thy ===== *)
theory Spec2Isabelle
  imports BrinkRun Handshake
begin

text \<open>
  brink runs an untrusted program in a Linux sandbox. A library call (\<open>Runtime::run\<close>) makes a cgroup and a
  pseudo terminal, sends a request over a socket to a fork server started earlier, and supervises the
  process the server cloned; that process mounts its own root, restricts itself with Landlock, rlimits,
  dropped capabilities and a seccomp filter, and executes the program. \<^verbatim>\<open>brink-run\<close> wraps this for a JSON
  job. This development translates the Rust sources under \<^verbatim>\<open>src/\<close> into Isabelle and proves what makes each
  part, and the parts together, correct.

  \<^bold>\<open>How effects are modelled.\<close> \<open>OS\<close> is the ground: a \<open>call\<close> names a system call or library call with its
  arguments, a \<open>kernel\<close> is a function of the call and a state of type \<open>'w\<close> that answers it, and a program is
  \<open>('w, 'e, 'a) io\<close>, a function on a record of the kernel's state, \<open>errno\<close> and the trace of the calls made
  with their answers. Every theorem holds for every kernel, so for every failure at every call. Errors are
  values of \<open>'e + 'a\<close>. \<open>emits m E Q\<close> states of a program's trace, for each outcome, what events it adds;
  \<open>Steps\<close> has the rules for code that gives up at the first failed call (\<open>ff\<close>), for code that makes
  only calls of a kind (\<open>stays\<close>), and for the errno an error carries (\<open>honest\<close>: it is the one the calls
  left). The rules are collected in \<open>emits_rules\<close>, \<open>ff_rules\<close>, \<open>stays_rules\<close> and \<open>honest_rules\<close>.

  \<^bold>\<open>Which theory models what.\<close>
  \<^item> \<open>Prelude\<close>, \<open>RustStd\<close>, \<open>Codec\<close>: little-endian bytes, lists and words; the pieces of Rust's standard
    library the sources use (decimal printing and parsing, \<open>trim\<close>, UTF-8 repair,
    \<open>CString::new\<close>); the locale \<open>codec\<close> of a writer with a reader that undoes it.
  \<^item> \<open>Ipc\<close> (\<^verbatim>\<open>src/ipc.rs\<close>): requests and responses on the wire; \<open>serialize\<close> and \<open>deserialize\<close> are built
    from readers that each interpret \<open>codec\<close>, and so is the whole request.
  \<^item> \<open>Errors\<close> (\<^verbatim>\<open>src/error.rs\<close>), \<open>Config\<close> (\<^verbatim>\<open>src/config.rs\<close>), \<open>Report\<close> (\<^verbatim>\<open>src/report.rs\<close>): the error type
    with its texts and stage codes, the configuration with \<open>validate\<close>, the reasons of a report.
  \<^item> \<open>Abi\<close>, \<open>Bpf\<close>, \<open>Seccomp\<close> (\<^verbatim>\<open>src/seccomp.rs\<close>): the numbers of the ABI; a BPF machine, which interprets the
    locale \<open>bpf_kernel\<close> of what the filter relies on; the filter as the code builds it, instruction by
    instruction, shown equal to a policy written over system calls.
  \<^item> \<open>Cgroup\<close> (\<^verbatim>\<open>src/cgroup.rs\<close>), \<open>Landlock\<close> (\<^verbatim>\<open>src/landlock.rs\<close>), \<open>MountSetup\<close> (\<^verbatim>\<open>src/mount.rs\<close>), \<open>Pty\<close>
    (\<^verbatim>\<open>src/pty.rs\<close>): one routine for each function, with the order of its calls and the outcome of every
    failure.
  \<^item> \<open>Namespace\<close> (\<^verbatim>\<open>src/namespace.rs\<close>): \<open>clone3\<close>, the child from its wait to \<open>execve\<close>, its error report,
    the parent's id maps.
  \<^item> \<open>StatusFile\<close> (the SIGCHLD handler of \<^verbatim>\<open>src/fork_server.rs\<close>), \<open>ForkServer\<close> (the rest of it): the status
    files, the server's loop, one request from its receipt to the response, the client's side.
  \<^item> \<open>Handshake\<close>: the server and the cloned child as an interleaved transition system over the eventfd;
    the locale \<open>barrier\<close> is what each side promises, and its interpretation rests on the two programs.
  \<^item> \<open>Collect\<close>, \<open>Reap\<close>, \<open>Supervisor\<close> (\<^verbatim>\<open>src/supervisor.rs\<close>, and \<open>Runtime\<close> of \<^verbatim>\<open>src/lib.rs\<close>): the loop over the
    two outputs, how the child's end is learned, and one run from the cgroup to the report.
  \<^item> \<open>BrinkRun\<close> (\<^verbatim>\<open>src/bin/run.rs\<close>): the program \<^verbatim>\<open>brink-run\<close>.

  \<^bold>\<open>What the theorems show.\<close> For the child: nothing is executed before every confinement step succeeded in
  order; in every interleaving with the server it acts only once it is in its cgroup with its maps, and it
  either runs to its end or waits unsignalled; a failure is reported once, with the stage of the call that
  stopped the setup and the errno of that call or, if the system did not refuse it, the errno left before,
  and reaches the caller unchanged. For the filter: it is the policy. For the cgroup: limits before use,
  removal on every path. For the server and the supervisor: descriptors are returned, requests and
  responses cross the socket, the status a handler wrote is read back, output is complete, the time limit
  is enforced and told, reports are consistent. Several theorems state what the code does where that is
  not what its documentation says or what it means to do: a request cut short, a child whose placement
  failed, the control socket that is open in the sandboxed program, the product of \<^verbatim>\<open>brink-run\<close>, the
  status whose negation overflows.

  \<^bold>\<open>Loops and fuel.\<close> The loops that the code bounds run on their own bound: 500 polls of pids.current, 100
  polls of a status file. Three run as long as the world makes them and take fuel: the server's requests
  (\<open>serve\<close>, which says \<open>Serving\<close> when it ends), the handler's reaping (\<open>reap_loop\<close>), which ends when \<open>waitpid\<close>
  finds nothing, and the supervisor's select (\<open>collect_loop\<close>, a run whose fuel ends is None). \<open>run_ends\<close>
  shows that fuel changes no run that ended, and that a run without fuel found a descriptor ready in
  each round.

  \<^bold>\<open>Parameters.\<close> System call numbers (\<open>sys\<close>, the libc crate), the texts of \<open>Errno\<close> and \<open>io::Error\<close>, the errno
  conversion of nix (\<open>from_raw\<close>), the JSON of serde, the arithmetic mode of the build (\<open>ovf\<close>: whether an
  overflow panics, in \<^verbatim>\<open>brink-run\<close> and in the handler's negation), and every answer of the kernel are
  arguments. What a crate does inside one call (landlock, nix, tokio's AsyncFd and timer) is a call with
  its documented answers.

  \<^bold>\<open>Not modelled.\<close> The async runtime itself and the cancellation of a future, so a run whose future is dropped
  midway; which descriptors are ready at a \<open>select!\<close> (the kernel's answer: the branch taken is then the
  first that is, since the select is biased); the interleaving of several runs on one socket beyond the
  lock that serialises them; signal delivery at arbitrary points (the handler is a program run on its
  own); memory layout, \<open>unsafe\<close> blocks as such; the Python agent, the examples and the build files.
\<close>

section \<open>From the child's error to the caller\<close>

lemma child_error_of_report:
  "child_error_of (fill_buf 5 (report_bytes stage e)) = ChildSetupFailed stage e"
  by (simp add: child_error_of_def report_bytes_def fill_buf_def)

lemma confirm_report:
  assumes "k (Fd (ReadFd rd 5)) (world s) = (Inr a, w)" and "ans_data a = report_bytes stage e"
  shows "fst (confirm_exec k rd s) = Inl (ChildSetupFailed stage e)"
proof -
  have "report_bytes stage e \<noteq> []" by (simp add: report_bytes_def)
  then show ?thesis
    using assms child_error_of_report [of stage e]
    by (simp add: confirm_exec_def bnd_def call_try_def attempt_def syscall_def)
qed

text \<open>
  C5. A child's error reaches the caller: if the sandboxed process exits without executing the program,
  and the supervisor's read finds the bytes that its last write put into the error pipe, the run's error is
  \<open>ChildSetupFailed\<close> with a stage and an error number. The child's last call before the report is one of
  that stage and stopped it, and no call before it failed, but those whose failure the code passes over.
  The number is the one with which the system refused that call, if it did; else it is EINVAL, for a call
  refused by the library, or the errno left by the last call the system refused.
\<close>

theorem child_error_reaches_caller:
  assumes "child_run k sys ctx s = (Inr (Exited_with c), t)" and "trace t = trace s @ es"
    and "calls_of es = pre @ [Fd (WriteFd (cc_err_pipe_write ctx) bytes), Proc (ExitProcess 1)]"
    and "k' (Fd (ReadFd rd 5)) (world u) = (Inr a, w)" and "ans_data a = bytes"
  shows "\<exists>stage e earlier ev x y. fst (confirm_exec k' rd u) = Inl (ChildSetupFailed stage e) \<and>
    es = earlier @ [ev, x, y] \<and> ok_but looked_at earlier \<and>
    child_stage_call sys ctx stage (fst ev) \<and> stopping ev \<and>
    errno_told e (last_errno s) (earlier @ [ev]) \<and>
    (\<forall>m. snd ev = Inl (OsError m) \<longrightarrow> e = m)"
proof -
  obtain earlier ev stage e x y where tr: "trace t = trace s @ earlier @
      [ev, (Fd (WriteFd (cc_err_pipe_write ctx) (report_bytes stage e)), x), (Proc (ExitProcess 1), y)]"
    and ev: "ok_but looked_at earlier" "child_stage_call sys ctx stage (fst ev)" "stopping ev"
    and told: "errno_told e (last_errno s) (earlier @ [ev])"
    by (rule child_run_exited [OF assms(1)]) blast
  from tr assms(2) have es: "es = earlier @
      [ev, (Fd (WriteFd (cc_err_pipe_write ctx) (report_bytes stage e)), x), (Proc (ExitProcess 1), y)]" by simp
  with assms(3) have "bytes = report_bytes stage e" by (auto simp: append_eq_append_conv2 Cons_eq_append_conv)
  then have "fst (confirm_exec k' rd u) = Inl (ChildSetupFailed stage e)"
    using confirm_report [of k' rd u a w stage e] assms(4,5) by simp
  moreover from told have "\<forall>m. snd ev = Inl (OsError m) \<longrightarrow> e = m" by (auto simp: errno_told_def)
  ultimately show ?thesis using es ev told by blast
qed

theorem child_error_reaches_caller_witness:
  "fst (confirm_exec (scripted (\<lambda>_. Inr (done_ans\<lparr>ans_data := report_bytes PtySlaveSetup EIO\<rparr>))) 21 fresh_os) =
     Inl (ChildSetupFailed PtySlaveSetup EIO) \<and>
   (\<exists>ev \<in> set (trace (snd refused_child)). stopping ev \<and> child_stage_call (\<lambda>_. 0) example_child PtySlaveSetup (fst ev))"
proof -
  let ?a = "done_ans\<lparr>ans_data := report_bytes PtySlaveSetup EIO\<rparr>"
  let ?k = "scripted (\<lambda>_. Inr ?a)"
  have run: "refused_child = (Inr (Exited_with 1), snd refused_child)"
    using refused_child_exits(1) by (metis prod.collapse)
  obtain pre where tr: "trace (snd refused_child) = pre @ [(Fd (Dup2 6 1), Inl (OsError EIO)),
     (Fd (WriteFd 8 (report_bytes PtySlaveSetup EIO)), Inr (done_ans\<lparr>ans_num := 8\<rparr>)),
     (Proc (ExitProcess 1), Inr (done_ans\<lparr>ans_num := 8\<rparr>))]" using refused_child_exits(2) by blast
  have calls: "calls_of (trace (snd refused_child)) = calls_of (pre @ [(Fd (Dup2 6 1), Inl (OsError EIO))]) @
      [Fd (WriteFd (cc_err_pipe_write example_child) (report_bytes PtySlaveSetup EIO)), Proc (ExitProcess 1)]"
    unfolding tr by (simp add: example_child_def)
  have e: "trace (snd refused_child) = trace fresh_os @ trace (snd refused_child)" by (simp add: fresh_os_def)
  have r: "?k (Fd (ReadFd 21 5)) (world fresh_os) = (Inr ?a, ())" by (simp add: scripted_def)
  have a: "ans_data ?a = report_bytes PtySlaveSetup EIO" by simp
  from child_error_reaches_caller [OF run e calls, of ?k 21 fresh_os ?a "()", OF r a]
  obtain stage n earlier ev x y where
    c: "fst (confirm_exec ?k 21 fresh_os) = Inl (ChildSetupFailed stage n)" and
    ev: "trace (snd refused_child) = earlier @ [ev, x, y]" "stopping ev"
      "child_stage_call (\<lambda>_. 0) example_child stage (fst ev)" by blast
  have w: "fst (confirm_exec ?k 21 fresh_os) = Inl (ChildSetupFailed PtySlaveSetup EIO)"
    by (rule confirm_report [of ?k 21 fresh_os ?a "()"]) (simp_all add: scripted_def)
  with c have "stage = PtySlaveSetup" by simp
  with w ev show ?thesis by auto
qed

end
